theory Spec2Isabelle
  imports Complex_Main "HOL-Library.Word"
begin

section \<open>JavaScript values used by the server\<close>

text \<open>
  A request field that holds a number of days or a UID (\<open>daysBack\<close>,
  \<open>resumeAfterUid\<close>, \<open>sinceUid\<close>, \<open>messageUid\<close>), after destructuring: JSON
  \<open>null\<close> or an integer. A field that is absent from the body is replaced by its
  default while destructuring (\<open>withDefault\<close>); \<open>null\<close> is not.
\<close>

datatype jsnum = Null | Num int

fun withDefault :: "'a option \<Rightarrow> 'a \<Rightarrow> 'a" where
  "withDefault None d = d"
| "withDefault (Some v) d = v"

fun truthy :: "jsnum \<Rightarrow> bool" where
  "truthy Null = False"
| "truthy (Num n) = (n \<noteq> 0)"

fun toNumber :: "jsnum \<Rightarrow> int" where
  "toNumber Null = 0"
| "toNumber (Num n) = n"

text \<open>
  \<open>maxResults\<close> is only ever the right-hand side of a comparison with a count, and
  nothing checks it: the field is given by the number the comparison converts it to. That
  number may have a fraction and may be negative; a value that is no number converts to
  \<open>NaN\<close>, a numeral beyond the range of a double to an infinity, \<open>null\<close> to 0.
\<close>

datatype js_number = Not_a_number | Finite real | Pos_infinity | Neg_infinity

text \<open>\<open>n < v\<close> and \<open>n >= v\<close> for a count \<open>n\<close>; every comparison with \<open>NaN\<close> is false.\<close>

definition length_below :: "nat \<Rightarrow> js_number \<Rightarrow> bool" where
  "length_below n v =
     (case v of
        Not_a_number \<Rightarrow> False
      | Finite x \<Rightarrow> real n < x
      | Pos_infinity \<Rightarrow> True
      | Neg_infinity \<Rightarrow> False)"


text \<open>
  The counters of the scans are numbers of the platform, IEEE 754 doubles, and hold
  integers: every integer up to \<open>2^53\<close> in magnitude is a double, and beyond that
  the doubles are \<open>spacing 1 a\<close> apart at the magnitude \<open>a\<close>. The result of
  \<open>+\<close> and \<open>-\<close> is the double nearest to the exact result, the one with the
  even significand when two are equally near (\<open>round_double\<close>). A counter starts
  from a double and moves by increments, and the one difference taken is between a
  counter and the value it started from, so no result leaves the finite range.
\<close>

function spacing :: "int \<Rightarrow> int \<Rightarrow> int" where
  "spacing q a = (if 0 < q \<and> 2 ^ 53 * q \<le> a then spacing (2 * q) a else q)"
  by pat_completeness auto
termination
  by (relation "measure (\<lambda>(q, a). nat (a - 2 ^ 53 * q + 1))") auto

declare spacing.simps [simp del]

definition round_double :: "int \<Rightarrow> int" where
  "round_double n =
     (let a = \<bar>n\<bar>;
          q = spacing 1 a;
          r = a mod q;
          d = a - r;
          m = (if 2 * r < q then d
               else if q < 2 * r then d + q
               else if even (d div q) then d else d + q)
      in if n < 0 then - m else m)"

text \<open>\<open>x++\<close> and \<open>x - y\<close> on such counters.\<close>

definition js_inc :: "int \<Rightarrow> int" where
  "js_inc x = round_double (x + 1)"

definition js_sub :: "int \<Rightarrow> int \<Rightarrow> int" where
  "js_sub x y = round_double (x - y)"

text \<open>\<open>a || b\<close> where \<open>a\<close> is a string or \<open>undefined\<close>: the empty string is falsy.\<close>

fun str_or :: "string option \<Rightarrow> string \<Rightarrow> string" where
  "str_or None b = b"
| "str_or (Some a) b = (if a = [] then b else a)"

text \<open>\<open>a || b\<close> where both sides may be \<open>undefined\<close>.\<close>

fun opt_or :: "string option \<Rightarrow> string option \<Rightarrow> string option" where
  "opt_or None b = b"
| "opt_or (Some a) b = (if a = [] then b else Some a)"

text \<open>
  A string is the sequence of its characters, each a code point below 256.
  \<open>String.prototype.toLowerCase\<close> changes the capital letters among them, which are
  \<open>A\<close> to \<open>Z\<close> (65 to 90) and the code points 192 to 222 without 215, each to
  the code point 32 above it, and keeps every other character.
\<close>

definition lower_char :: "char \<Rightarrow> char" where
  "lower_char c =
     (let n = (of_char c :: nat)
      in if (65 \<le> n \<and> n \<le> 90) \<or> (192 \<le> n \<and> n \<le> 222 \<and> n \<noteq> 215)
         then char_of (n + 32) else c)"

definition toLowerCase :: "string \<Rightarrow> string" where
  "toLowerCase s = map lower_char s"

definition endsWith :: "string \<Rightarrow> string \<Rightarrow> bool" where
  "endsWith s suf = (length suf \<le> length s \<and> drop (length s - length suf) s = suf)"

definition startsWith :: "string \<Rightarrow> string \<Rightarrow> bool" where
  "startsWith s pre = (take (length pre) s = pre)"


text \<open>Decimal rendering of a non-negative number inside a template literal.\<close>

definition digit :: "nat \<Rightarrow> char" where
  "digit d = ''0123456789'' ! (d mod 10)"

function decimal :: "nat \<Rightarrow> string" where
  "decimal n = (if n < 10 then [digit n] else decimal (n div 10) @ [digit n])"
  by pat_completeness auto
termination
  by (relation "measure id") auto

declare decimal.simps [simp del]

section \<open>MIME structure tree (the client's \<open>bodyStructure\<close>)\<close>

text \<open>
  One node of \<open>msg.bodyStructure\<close>. \<open>disposition_filename\<close> is
  \<open>part.dispositionParameters?.filename\<close> and \<open>parameters_name\<close> is
  \<open>part.parameters?.name\<close>: \<open>None\<close> when the object or the key is missing.
  \<open>childNodes\<close> is the array of children (\<open>[]\<close> also stands for a missing
  array: both walks do nothing then); an entry may be \<open>null\<close>.
\<close>

datatype part = Part
  (part_type: "string option")
  (part_subtype: "string option")
  (disposition_filename: "string option")
  (parameters_name: "string option")
  (part_size: "nat option")
  (part_encoding: "string option")
  (childNodes: "part option list")

record attachment =
  filename :: string
  mimeType :: string
  size_bytes :: nat
  partId :: string
  encoding :: "string option"

definition mimeType_of :: "part \<Rightarrow> string" where
  "mimeType_of p = toLowerCase (str_or (part_type p) [] @ ''/'' @ str_or (part_subtype p) [])"

definition filename_of :: "part \<Rightarrow> string" where
  "filename_of p = str_or (opt_or (disposition_filename p) (parameters_name p)) []"

definition isMultipart :: "part \<Rightarrow> bool" where
  "isMultipart p = startsWith (mimeType_of p) ''multipart/''"

text \<open>The test both walks apply before \<open>attachments.push\<close>.\<close>

definition is_pdf :: "part \<Rightarrow> bool" where
  "is_pdf p = (mimeType_of p = ''application/pdf'' \<or> endsWith (toLowerCase (filename_of p)) ''.pdf'')"

text \<open>\<open>part.size || 0\<close>\<close>

definition size_or_0 :: "part \<Rightarrow> nat" where
  "size_or_0 p = (case part_size p of None \<Rightarrow> 0 | Some n \<Rightarrow> n)"

subsection \<open>\<open>extractPdfAttachments\<close>, current server (walk with \<open>path = ''\<close>)\<close>

text \<open>\<open>path ? `${path}.${index + 1}` : `${index + 1}`\<close>\<close>

definition childPath :: "string \<Rightarrow> nat \<Rightarrow> string" where
  "childPath path index =
     (if path \<noteq> [] then path @ ''.'' @ decimal (index + 1) else decimal (index + 1))"

definition descriptor :: "part \<Rightarrow> string \<Rightarrow> attachment" where
  "descriptor p path =
     \<lparr> filename = (if filename_of p \<noteq> [] then filename_of p else ''document.pdf''),
       mimeType = mimeType_of p,
       size_bytes = size_or_0 p,
       partId = (if path \<noteq> [] then path else ''1''),
       encoding = part_encoding p \<rparr>"

text \<open>
  \<open>walk\<close> pushes onto the shared array \<open>attachments\<close>; the model returns what one
  call pushes, in the order of the pushes. \<open>walk_children\<close> is the \<open>forEach\<close> over
  \<open>childNodes\<close>, with the index of the next element.
\<close>

fun walk :: "part \<Rightarrow> string \<Rightarrow> attachment list"
  and walk_children :: "part option list \<Rightarrow> nat \<Rightarrow> string \<Rightarrow> attachment list" where
  "walk (Part ty sub df pn sz enc cs) path =
     (if is_pdf (Part ty sub df pn sz enc cs) then [descriptor (Part ty sub df pn sz enc cs) path] else [])
     @ walk_children cs 0 path"
| "walk_children [] index path = []"
| "walk_children (None # cs) index path = walk_children cs (index + 1) path"
| "walk_children (Some c # cs) index path =
     walk c (childPath path index) @ walk_children cs (index + 1) path"

definition extractPdfAttachments :: "part option \<Rightarrow> attachment list" where
  "extractPdfAttachments bodyStructure =
     (case bodyStructure of None \<Rightarrow> [] | Some p \<Rightarrow> walk p [])"

subsection \<open>\<open>extractPdfAttachments\<close> of \<open>src/index.js\<close> (walk with \<open>partId = '1'\<close>)\<close>

definition descriptor_index :: "part \<Rightarrow> string \<Rightarrow> attachment" where
  "descriptor_index p pid =
     \<lparr> filename = (if filename_of p \<noteq> [] then filename_of p else ''document.pdf''),
       mimeType = mimeType_of p,
       size_bytes = size_or_0 p,
       partId = pid,
       encoding = None \<rparr>"

fun walk_index :: "part \<Rightarrow> string \<Rightarrow> attachment list"
  and walk_index_children :: "part option list \<Rightarrow> nat \<Rightarrow> string \<Rightarrow> attachment list" where
  "walk_index (Part ty sub df pn sz enc cs) pid =
     (if is_pdf (Part ty sub df pn sz enc cs) then [descriptor_index (Part ty sub df pn sz enc cs) pid] else [])
     @ walk_index_children cs 0 pid"
| "walk_index_children [] index pid = []"
| "walk_index_children (None # cs) index pid = walk_index_children cs (index + 1) pid"
| "walk_index_children (Some c # cs) index pid =
     walk_index c (pid @ ''.'' @ decimal (index + 1)) @ walk_index_children cs (index + 1) pid"

definition extractPdfAttachments_index :: "part option \<Rightarrow> attachment list" where
  "extractPdfAttachments_index bodyStructure =
     (case bodyStructure of None \<Rightarrow> [] | Some p \<Rightarrow> walk_index p ''1'')"

subsection \<open>The part-path invariant, from its wording\<close>

text \<open>
  A position in the tree is the list of 1-based child indices from the root. The
  invariant gives child \<open>i\<close> of a parent with accumulated path \<open>p\<close> the path
  \<open>p.i\<close> when \<open>p\<close> is not empty, and \<open>i\<close> alone otherwise.
\<close>

definition extend_path :: "string \<Rightarrow> nat \<Rightarrow> string" where
  "extend_path p i = (if p \<noteq> [] then p @ ''.'' @ decimal i else decimal i)"

definition path_at :: "nat list \<Rightarrow> string" where
  "path_at pos = foldl extend_path [] pos"

text \<open>The positions of the nodes that pass \<open>is_pdf\<close>, in document order.\<close>

fun pdf_nodes :: "part \<Rightarrow> nat list \<Rightarrow> nat list list"
  and pdf_nodes_children :: "part option list \<Rightarrow> nat \<Rightarrow> nat list \<Rightarrow> nat list list" where
  "pdf_nodes (Part ty sub df pn sz enc cs) pos =
     (if is_pdf (Part ty sub df pn sz enc cs) then [pos] else []) @ pdf_nodes_children cs 0 pos"
| "pdf_nodes_children [] index pos = []"
| "pdf_nodes_children (None # cs) index pos = pdf_nodes_children cs (index + 1) pos"
| "pdf_nodes_children (Some c # cs) index pos =
     pdf_nodes c (pos @ [index + 1]) @ pdf_nodes_children cs (index + 1) pos"

subsection \<open>The structure trees of the scenarios\<close>

text \<open>\<open>multipart/mixed[ text/plain, application/pdf(filename="inv.pdf") ]\<close>\<close>

definition text_plain_leaf :: part where
  "text_plain_leaf = Part (Some ''text'') (Some ''plain'') None None (Some 120) (Some ''7bit'') []"

definition inv_pdf_leaf :: part where
  "inv_pdf_leaf =
     Part (Some ''application'') (Some ''pdf'') (Some ''inv.pdf'') None (Some 2048) (Some ''base64'') []"

definition invoice_tree :: part where
  "invoice_tree =
     Part (Some ''multipart'') (Some ''mixed'') None None None None
       [Some text_plain_leaf, Some inv_pdf_leaf]"

text \<open>The same tree, whose container carries the content parameter \<open>name="bundle.pdf"\<close>.\<close>

definition named_container_tree :: part where
  "named_container_tree =
     Part (Some ''multipart'') (Some ''mixed'') None (Some ''bundle.pdf'') None None
       [Some text_plain_leaf, Some inv_pdf_leaf]"



text \<open>
  The scenario tree as the client delivers it, with one more leaf: a PDF that has
  neither a disposition filename nor a content name.
\<close>

definition client_text_leaf :: part where
  "client_text_leaf = Part (Some ''text/plain'') None None None (Some 120) (Some ''7bit'') []"

definition client_pdf_leaf :: part where
  "client_pdf_leaf =
     Part (Some ''application/pdf'') None (Some ''inv.pdf'') None (Some 2048) (Some ''base64'') []"

definition client_unnamed_pdf_leaf :: part where
  "client_unnamed_pdf_leaf =
     Part (Some ''application/pdf'') None None None (Some 512) (Some ''base64'') []"

definition client_invoice_tree :: part where
  "client_invoice_tree =
     Part (Some ''multipart/mixed'') None None None None None
       [Some client_text_leaf, Some client_pdf_leaf, Some client_unnamed_pdf_leaf]"

text \<open>The same tree, whose container carries the content parameter \<open>name="bundle.pdf"\<close>.\<close>

definition client_named_container_tree :: part where
  "client_named_container_tree =
     Part (Some ''multipart/mixed'') None None (Some ''bundle.pdf'') None None
       [Some client_text_leaf, Some client_pdf_leaf, Some client_unnamed_pdf_leaf]"

text \<open>
  A leaf in the other shape, \<open>type\<close> and \<open>subtype\<close> apart, with neither a
  disposition filename nor a content name.
\<close>

definition unnamed_pdf_leaf :: part where
  "unnamed_pdf_leaf = Part (Some ''application'') (Some ''pdf'') None None (Some 512) (Some ''base64'') []"

section \<open>The collaborator: the IMAP client\<close>

text \<open>
  The client is outside the repository. \<open>createClient(email, password)\<close> is a
  function from the credentials to a client, and a client is given by the outcome of each
  of its calls: a thrown error is the error's \<open>message\<close>, and \<open>connect\<close> is the
  outcome of \<open>createClient\<close> itself. What a client answers, and the messages of the
  errors it throws, may depend on the credentials it was created with. \<open>fetch\<close> (by
  a list of UIDs) and \<open>fetch_query\<close> (by search criteria, as \<open>/search-text\<close> calls
  it) yield messages and may then throw. \<open>search\<close> may return something that is not an
  array (\<open>None\<close>). \<open>status_messages\<close> is \<open>status('INBOX', {messages})\<close> and
  \<open>status_stats\<close> is \<open>status('INBOX', {messages, recent})\<close>. \<open>fetchOne\<close> may
  resolve to nothing (\<open>None\<close>). Every fetched message has its \<open>uid\<close> and its
  \<open>envelope\<close>, which the handlers ask for; \<open>from_addrs\<close> is \<open>envelope.from\<close>
  (\<open>[]\<close> when it is missing) and \<open>date\<close> is \<open>envelope.date?.toISOString()\<close>.
\<close>

record address =
  name :: "string option"
  mailbox :: "string option"
  host :: "string option"

record envelope =
  subject :: "string option"
  from_addrs :: "address list"
  date :: "string option"

record message =
  uid :: int
  envelope :: envelope
  bodyStructure :: "part option"

datatype criteria = Since int | Uid_from int

text \<open>The criteria of \<open>/search-text\<close>: \<open>{since, from?, subject?}\<close>.\<close>

record text_criteria =
  tc_since :: int
  tc_from :: "string option"
  tc_subject :: "string option"

record imap =
  connect :: "string option"
  status_messages :: "string + nat"
  status_stats :: "string + nat \<times> nat"
  mailboxOpen :: "string option"
  search :: "criteria \<Rightarrow> string + int list option"
  fetch :: "int list \<Rightarrow> message list \<times> string option"
  fetch_query :: "text_criteria \<Rightarrow> message list \<times> string option"
  fetchOne :: "jsnum \<Rightarrow> string + message option"
  logout :: "string option"

text \<open>\<open>err.message || fallback\<close>\<close>

definition message_or :: "string \<Rightarrow> string \<Rightarrow> string" where
  "message_or msg fallback = (if msg \<noteq> [] then msg else fallback)"

definition formatAddress :: "address option \<Rightarrow> string" where
  "formatAddress addr =
     (case addr of
        None \<Rightarrow> []
      | Some a \<Rightarrow>
          (let nm = str_or (name a) [];
               email = str_or (mailbox a) [] @ ''@'' @ str_or (host a) []
           in if nm \<noteq> [] then nm @ '' <'' @ email @ ''>'' else email))"

text \<open>One entry of \<open>messages\<close>: \<open>{uid, subject, from, date, attachments}\<close>.\<close>

record pdf_message =
  pm_uid :: int
  pm_subject :: "string option"
  pm_from :: string
  pm_date :: "string option"
  pm_attachments :: "attachment list"

definition pdfMsg :: "message \<Rightarrow> pdf_message" where
  "pdfMsg msg =
     \<lparr> pm_uid = uid msg,
       pm_subject = subject (envelope msg),
       pm_from = formatAddress (case from_addrs (envelope msg) of [] \<Rightarrow> None | a # _ \<Rightarrow> Some a),
       pm_date = date (envelope msg),
       pm_attachments = extractPdfAttachments (bodyStructure msg) \<rparr>"

definition has_pdf :: "message \<Rightarrow> bool" where
  "has_pdf msg = (extractPdfAttachments (bodyStructure msg) \<noteq> [])"

section \<open>The search window\<close>

text \<open>\<open>daysBack >= 3650 ? 3650 : (daysBack || 365)\<close>, the same line in both handlers.\<close>

definition effectiveDaysBack :: "jsnum \<Rightarrow> int" where
  "effectiveDaysBack daysBack =
     (if toNumber daysBack \<ge> 3650 then 3650
      else if truthy daysBack then toNumber daysBack else 365)"

text \<open>
  Dates are day numbers: \<open>sinceDate.setDate(sinceDate.getDate() - effectiveDaysBack)\<close>
  moves \<open>now\<close> back by that many calendar days.
\<close>

definition sinceDate :: "int \<Rightarrow> jsnum \<Rightarrow> int" where
  "sinceDate now daysBack = now - effectiveDaysBack daysBack"

text \<open>\<open>allUids.sort((a, b) => b - a)\<close>\<close>

definition sort_desc :: "int list \<Rightarrow> int list" where
  "sort_desc uids = rev (sort uids)"

definition FETCH_BATCH_SIZE :: nat where
  "FETCH_BATCH_SIZE = 100"

text \<open>\<open>allUids.slice(i, i + FETCH_BATCH_SIZE)\<close>\<close>

definition batch_slice :: "int list \<Rightarrow> nat \<Rightarrow> int list" where
  "batch_slice allUids i = take FETCH_BATCH_SIZE (drop i allUids)"

section \<open>The credentials of a request\<close>

text \<open>
  Every request body carries \<open>email\<close> and \<open>password\<close>; a handler rejects the
  request when one of them is missing or empty, and otherwise hands both to
  \<open>createClient\<close>.
\<close>

record credentials =
  email :: "string option"
  password :: "string option"

definition credentials_present :: "string option \<Rightarrow> string option \<Rightarrow> bool" where
  "credentials_present e p = (str_or e [] \<noteq> [] \<and> str_or p [] \<noteq> [])"

text \<open>\<open>await createClient(email, password)\<close>, once both are known to be present.\<close>

definition client_of :: "(string \<Rightarrow> string \<Rightarrow> 'c) \<Rightarrow> 'a credentials_scheme \<Rightarrow> 'c" where
  "client_of createClient req = createClient (str_or (email req) []) (str_or (password req) [])"

section \<open>\<open>/test\<close> and \<open>/mailbox-stats\<close>\<close>






section \<open>\<open>/search\<close>\<close>

record search_request = credentials +
  daysBack :: "jsnum option"
  maxResults :: "js_number option"

record search_state =
  s_messages :: "pdf_message list"
  s_totalEmailsScanned :: int
  s_totalWithPdf :: int

record search_result =
  r_messages :: "pdf_message list"
  r_totalEmailsScanned :: int
  r_totalWithPdf :: int
  r_daysBack :: int

datatype search_response = Search_ok search_result | Search_error nat string

text \<open>The criteria of \<open>client.search({ since: sinceDate }, { uid: true })\<close>.\<close>

definition search_criteria :: "int \<Rightarrow> 'a search_request_scheme \<Rightarrow> criteria" where
  "search_criteria now req = Since (sinceDate now (withDefault (daysBack req) (Num 365)))"

text \<open>The body of the \<open>for await\<close> loop, for one message.\<close>

definition search_step :: "js_number \<Rightarrow> search_state \<Rightarrow> message \<Rightarrow> search_state" where
  "search_step maxR st msg =
     (let st1 = st\<lparr> s_totalEmailsScanned := js_inc (s_totalEmailsScanned st) \<rparr>
      in if extractPdfAttachments (bodyStructure msg) \<noteq> []
         then (let st2 = st1\<lparr> s_totalWithPdf := js_inc (s_totalWithPdf st1) \<rparr>
               in if length_below (length (s_messages st2)) maxR
                  then st2\<lparr> s_messages := s_messages st2 @ [pdfMsg msg] \<rparr>
                  else st2)
         else st1)"

text \<open>
  The loop over the batches, from index \<open>i\<close>. The result is the state reached and
  the error that stopped the loop, if one did.
\<close>

function search_batches ::
  "imap \<Rightarrow> js_number \<Rightarrow> int list \<Rightarrow> nat \<Rightarrow> search_state \<Rightarrow> search_state \<times> string option" where
  "search_batches c maxR allUids i st =
     (if i < length allUids
      then (if batch_slice allUids i = [] then (st, None)
            else (case fetch c (batch_slice allUids i) of
                    (msgs, err) \<Rightarrow>
                      (case err of
                         Some e \<Rightarrow> (foldl (search_step maxR) st msgs, Some e)
                       | None \<Rightarrow>
                           search_batches c maxR allUids (i + FETCH_BATCH_SIZE)
                             (foldl (search_step maxR) st msgs))))
      else (st, None))"
  by pat_completeness auto
termination
  by (relation "measure (\<lambda>(c, maxR, allUids, i, st). length allUids - i)")
     (auto simp: FETCH_BATCH_SIZE_def)

declare search_batches.simps [simp del]

definition search_handler ::
  "(string \<Rightarrow> string \<Rightarrow> imap) \<Rightarrow> int \<Rightarrow> search_request \<Rightarrow> search_response" where
  "search_handler createClient now req =
     (if \<not> credentials_present (email req) (password req)
      then Search_error 400 ''Email and password required''
      else
        (let c = client_of createClient req;
             days = withDefault (daysBack req) (Num 365);
             maxR = withDefault (maxResults req) (Finite 5000)
         in case connect c of
              Some e \<Rightarrow> Search_error 500 (message_or e ''Search failed'')
            | None \<Rightarrow>
           (case mailboxOpen c of
              Some e \<Rightarrow> Search_error 500 (message_or e ''Search failed'')
            | None \<Rightarrow>
           (case search c (search_criteria now req) of
              Inl e \<Rightarrow> Search_error 500 (message_or e ''Search failed'')
            | Inr found \<Rightarrow>
           (let allUids = sort_desc (case found of None \<Rightarrow> [] | Some us \<Rightarrow> us)
            in case search_batches c maxR allUids 0
                      \<lparr> s_messages = [], s_totalEmailsScanned = 0, s_totalWithPdf = 0 \<rparr> of
                 (st, Some e) \<Rightarrow> Search_error 500 (message_or e ''Search failed'')
               | (st, None) \<Rightarrow>
              (case logout c of
                 Some e \<Rightarrow> Search_error 500 (message_or e ''Search failed'')
               | None \<Rightarrow>
                   Search_ok \<lparr> r_messages = s_messages st,
                               r_totalEmailsScanned = s_totalEmailsScanned st,
                               r_totalWithPdf = s_totalWithPdf st,
                               r_daysBack = effectiveDaysBack days \<rparr>))))))"

text \<open>
  The messages the batch loop receives from index \<open>i\<close> on: every batch's messages, up
  to and including the batch in which \<open>fetch\<close> throws.
\<close>

function fetched :: "imap \<Rightarrow> int list \<Rightarrow> nat \<Rightarrow> message list" where
  "fetched c allUids i =
     (if i < length allUids
      then (if batch_slice allUids i = [] then []
            else (case fetch c (batch_slice allUids i) of
                    (msgs, err) \<Rightarrow>
                      (case err of
                         Some e \<Rightarrow> msgs
                       | None \<Rightarrow> msgs @ fetched c allUids (i + FETCH_BATCH_SIZE))))
      else [])"
  by pat_completeness auto
termination
  by (relation "measure (\<lambda>(c, allUids, i). length allUids - i)")
     (auto simp: FETCH_BATCH_SIZE_def)

declare fetched.simps [simp del]

section \<open>\<open>/search-stream\<close>\<close>

text \<open>
  The request after destructuring: \<open>resumeAfterUid\<close> and \<open>sinceUid\<close> are \<open>null\<close> and
  the previous counts are 0 when the body does not have them. The previous counts are
  the totals an earlier run reported: integers that are doubles.
\<close>

record stream_request = search_request +
  resumeAfterUid :: jsnum
  sinceUid :: jsnum
  previousScanned :: int
  previousWithPdf :: int

text \<open>
  The events written to the response. The fields computed in floating point or from the
  wall clock (\<open>estimatedPdfs\<close>, \<open>percentComplete\<close>, \<open>etaSeconds\<close>,
  \<open>emailsPerSecond\<close>) are left out.
\<close>

record start_event =
  se_totalInMailbox :: nat
  se_resuming :: bool
  se_incremental :: bool
  se_sinceUid :: jsnum
  se_previousScanned :: int
  se_previousWithPdf :: int

record progress_event =
  pe_scanned :: int
  pe_totalInMailbox :: nat
  pe_withPdf :: int
  pe_lastUid :: jsnum

record complete_event =
  ce_totalEmailsScanned :: int
  ce_totalWithPdf :: int
  ce_daysBack :: int
  ce_lastUid :: jsnum

datatype event =
    Start start_event
  | Progress progress_event
  | Pdf_batch "pdf_message list" int
  | Complete complete_event
  | Error string

datatype stream_response = Stream_rejected nat string | Stream "event list"

record stream_state =
  messages :: "pdf_message list"
  pendingMessages :: "pdf_message list"
  totalEmailsScanned :: int
  totalWithPdf :: int
  lastProcessedUid :: jsnum
  skippedToResume :: nat
  sent :: "event list"

definition PROGRESS_INTERVAL :: int where
  "PROGRESS_INTERVAL = 50"

definition PDF_BATCH_SIZE :: nat where
  "PDF_BATCH_SIZE = 10"

definition sendEvent :: "event \<Rightarrow> stream_state \<Rightarrow> stream_state" where
  "sendEvent e st = st\<lparr> sent := sent st @ [e] \<rparr>"

text \<open>
  The part of the loop body after \<open>totalWithPdf++\<close>: the push under the cap and the
  batch event, which takes all of \<open>pendingMessages\<close> with \<open>splice\<close>.
\<close>

definition push_pdf :: "js_number \<Rightarrow> message \<Rightarrow> stream_state \<Rightarrow> stream_state" where
  "push_pdf maxR msg st =
     (if length_below (length (messages st)) maxR
      then (let st1 = st\<lparr> messages := messages st @ [pdfMsg msg],
                            pendingMessages := pendingMessages st @ [pdfMsg msg] \<rparr>
            in if length (pendingMessages st1) \<ge> PDF_BATCH_SIZE
               then sendEvent (Pdf_batch (pendingMessages st1) (totalWithPdf st1))
                      (st1\<lparr> pendingMessages := [] \<rparr>)
               else st1)
      else st)"

definition send_progress :: "int \<Rightarrow> nat \<Rightarrow> stream_state \<Rightarrow> stream_state" where
  "send_progress prev n_uids st =
     (if js_sub (totalEmailsScanned st) prev mod PROGRESS_INTERVAL = 0
      then sendEvent (Progress \<lparr> pe_scanned = totalEmailsScanned st, pe_totalInMailbox = n_uids,
                                  pe_withPdf = totalWithPdf st, pe_lastUid = lastProcessedUid st \<rparr>) st
      else st)"

text \<open>
  The body of the inner \<open>for await\<close> loop, for one message: \<open>resume\<close> is
  \<open>resumeAfterUid\<close>, \<open>prev\<close> is \<open>previousScanned\<close>, \<open>n_uids\<close> is \<open>allUids.length\<close>.
\<close>

definition stream_step ::
  "jsnum \<Rightarrow> js_number \<Rightarrow> int \<Rightarrow> nat \<Rightarrow> stream_state \<Rightarrow> message \<Rightarrow> stream_state" where
  "stream_step resume maxR prev n_uids st msg =
     (if truthy resume \<and> uid msg \<ge> toNumber resume
      then st\<lparr> skippedToResume := skippedToResume st + 1 \<rparr>
      else (let st1 = st\<lparr> totalEmailsScanned := js_inc (totalEmailsScanned st),
                            lastProcessedUid := Num (uid msg) \<rparr>;
                st2 = (if extractPdfAttachments (bodyStructure msg) \<noteq> []
                       then push_pdf maxR msg (st1\<lparr> totalWithPdf := js_inc (totalWithPdf st1) \<rparr>)
                       else st1)
            in send_progress prev n_uids st2))"

function stream_batches ::
  "imap \<Rightarrow> jsnum \<Rightarrow> js_number \<Rightarrow> int \<Rightarrow> int list \<Rightarrow> nat \<Rightarrow> stream_state \<Rightarrow> stream_state \<times> string option" where
  "stream_batches c resume maxR prev allUids i st =
     (if i < length allUids
      then (if batch_slice allUids i = [] then (st, None)
            else (case fetch c (batch_slice allUids i) of
                    (msgs, err) \<Rightarrow>
                      (case err of
                         Some e \<Rightarrow> (foldl (stream_step resume maxR prev (length allUids)) st msgs, Some e)
                       | None \<Rightarrow>
                           stream_batches c resume maxR prev allUids (i + FETCH_BATCH_SIZE)
                             (foldl (stream_step resume maxR prev (length allUids)) st msgs))))
      else (st, None))"
  by pat_completeness auto
termination
  by (relation "measure (\<lambda>(c, resume, maxR, prev, allUids, i, st). length allUids - i)")
     (auto simp: FETCH_BATCH_SIZE_def)

declare stream_batches.simps [simp del]

text \<open>Incremental scan: \<open>{ uid: `${sinceUid + 1}:*` }\<close>; full scan: \<open>{ since: sinceDate }\<close>.\<close>

definition stream_criteria :: "int \<Rightarrow> 'a stream_request_scheme \<Rightarrow> criteria" where
  "stream_criteria now req =
     (if truthy (sinceUid req) then Uid_from (js_inc (toNumber (sinceUid req)))
      else Since (sinceDate now (withDefault (daysBack req) (Num 365))))"

text \<open>The final flush of \<open>pendingMessages\<close>.\<close>

definition flush_pending :: "stream_state \<Rightarrow> stream_state" where
  "flush_pending st =
     (if pendingMessages st \<noteq> []
      then sendEvent (Pdf_batch (pendingMessages st) (totalWithPdf st)) st
      else st)"

definition start_of :: "nat \<Rightarrow> 'a stream_request_scheme \<Rightarrow> event" where
  "start_of totalInMailbox req =
     Start \<lparr> se_totalInMailbox = totalInMailbox, se_resuming = truthy (resumeAfterUid req),
             se_incremental = truthy (sinceUid req), se_sinceUid = sinceUid req,
             se_previousScanned = previousScanned req, se_previousWithPdf = previousWithPdf req \<rparr>"

definition stream_init :: "'a stream_request_scheme \<Rightarrow> event list \<Rightarrow> stream_state" where
  "stream_init req evs =
     \<lparr> messages = [], pendingMessages = [], totalEmailsScanned = previousScanned req,
       totalWithPdf = previousWithPdf req, lastProcessedUid = resumeAfterUid req,
       skippedToResume = 0, sent = evs \<rparr>"

definition error_event :: "string \<Rightarrow> event" where
  "error_event e = Error (message_or e ''Search failed'')"

definition search_stream ::
  "(string \<Rightarrow> string \<Rightarrow> imap) \<Rightarrow> int \<Rightarrow> stream_request \<Rightarrow> stream_response" where
  "search_stream createClient now req =
     (if \<not> credentials_present (email req) (password req)
      then Stream_rejected 400 ''Email and password required''
      else
        (let c = client_of createClient req;
             days = withDefault (daysBack req) (Num 365);
             maxR = withDefault (maxResults req) (Finite 5000)
         in case connect c of
              Some e \<Rightarrow> Stream [error_event e]
            | None \<Rightarrow>
           (case status_messages c of
              Inl e \<Rightarrow> Stream [error_event e]
            | Inr totalInMailbox \<Rightarrow>
           (let started = [start_of totalInMailbox req]
            in case mailboxOpen c of
              Some e \<Rightarrow> Stream (started @ [error_event e])
            | None \<Rightarrow>
           (case search c (stream_criteria now req) of
              Inl e \<Rightarrow> Stream (started @ [error_event e])
            | Inr found \<Rightarrow>
           (let allUids = sort_desc (case found of None \<Rightarrow> [] | Some us \<Rightarrow> us)
            in case stream_batches c (resumeAfterUid req) maxR (previousScanned req) allUids 0
                      (stream_init req started) of
                 (st, Some e) \<Rightarrow> Stream (sent st @ [error_event e])
               | (st, None) \<Rightarrow>
              (let st1 = flush_pending st
               in case logout c of
                    Some e \<Rightarrow> Stream (sent st1 @ [error_event e])
                  | None \<Rightarrow>
                      Stream (sent st1 @
                        [Complete \<lparr> ce_totalEmailsScanned = totalEmailsScanned st1,
                                     ce_totalWithPdf = totalWithPdf st1,
                                     ce_daysBack = effectiveDaysBack days,
                                     ce_lastUid = lastProcessedUid st1 \<rparr>]))))))))"




section \<open>\<open>/attachment\<close>\<close>

type_synonym byte = "8 word"

text \<open>
  What \<open>client.download\<close> resolves to: nothing, or an object whose \<open>content\<close> may be
  missing and is otherwise a stream that ends with all its bytes or emits an error;
  \<open>dl_filename\<close> is \<open>meta?.filename\<close>.
\<close>

datatype download_result =
    No_result
  | Result (content: "(string + byte list) option") (dl_filename: "string option")

text \<open>
  The client of one attempt, as \<open>createClient(email, password, 30000)\<close> made it.
  \<open>download k path\<close> is the \<open>k\<close>-th call of \<open>client.download\<close> in the attempt
  (0 for the direct one) and \<open>fetchStructure\<close> is
  \<open>fetchOne(messageUid, { bodyStructure: true })\<close>, returning
  \<open>structMsg?.bodyStructure\<close>.
\<close>

record attempt_client =
  a_connect :: "string option"
  a_mailboxOpen :: "string option"
  a_download :: "nat \<Rightarrow> string \<Rightarrow> string + download_result"
  a_fetchStructure :: "string + part option"
  a_logout :: "string option"

record attachment_request =
  ar_email :: "string option"
  ar_password :: "string option"
  messageUid :: jsnum
  ar_partId :: "string option"

record pdf_part =
  pp_path :: string
  pp_filename :: string
  pp_size :: "nat option"
  pp_encoding :: "string option"

text \<open>The lines written with \<open>console.log\<close> and \<open>console.error\<close>, by their template.\<close>

datatype log_line =
    Log_downloading jsnum string nat
  | Log_direct_failed string string
  | Log_found_parts "pdf_part list"
  | Log_trying string string
  | Log_part_failed string string
  | Log_not_pdf string
  | Log_success nat
  | Log_download_error nat string
  | Log_waiting nat
  | Log_all_failed jsnum string string

text \<open>
  What the handler does besides answering: a call of \<open>createClient\<close> in attempt \<open>k\<close>,
  a log line, a \<open>setTimeout\<close> wait in milliseconds.
\<close>

datatype effect = Create_client nat | Log log_line | Wait nat

record attachment_body =
  payload :: "byte list"
  ab_filename :: string
  ab_size :: nat

datatype attachment_response = Attachment_ok attachment_body | Attachment_error nat string

definition MAX_RETRIES :: nat where
  "MAX_RETRIES = 3"

text \<open>
  \<open>findPdfParts\<close>: it has no guard for a \<open>null\<close> node, so reading \<open>part.type\<close> of a
  \<open>null\<close> child throws, and the error leaves the walk.
\<close>

definition null_part_message :: string where
  "null_part_message = ''Cannot read properties of null (reading 'type')''"

definition found_part :: "part \<Rightarrow> string \<Rightarrow> pdf_part" where
  "found_part p path =
     \<lparr> pp_path = (if path \<noteq> [] then path else ''1''), pp_filename = filename_of p,
       pp_size = part_size p, pp_encoding = part_encoding p \<rparr>"

fun findPdfParts :: "part \<Rightarrow> string \<Rightarrow> string + pdf_part list"
  and findPdfParts_children :: "part option list \<Rightarrow> nat \<Rightarrow> string \<Rightarrow> string + pdf_part list" where
  "findPdfParts (Part ty sub df pn sz enc cs) path =
     (case findPdfParts_children cs 0 path of
        Inl e \<Rightarrow> Inl e
      | Inr below \<Rightarrow>
          Inr ((if is_pdf (Part ty sub df pn sz enc cs)
                then [found_part (Part ty sub df pn sz enc cs) path] else []) @ below))"
| "findPdfParts_children [] idx path = Inr []"
| "findPdfParts_children (None # cs) idx path = Inl null_part_message"
| "findPdfParts_children (Some c # cs) idx path =
     (case findPdfParts c (childPath path idx) of
        Inl e \<Rightarrow> Inl e
      | Inr found \<Rightarrow>
          (case findPdfParts_children cs (idx + 1) path of
             Inl e \<Rightarrow> Inl e
           | Inr others \<Rightarrow> Inr (found @ others)))"

text \<open>
  The loop over \<open>pdfParts\<close>: the first candidate whose download does not throw ends
  it. \<open>k\<close> is the number of the next call of \<open>client.download\<close>.
\<close>

fun try_parts :: "attempt_client \<Rightarrow> pdf_part list \<Rightarrow> nat \<Rightarrow> effect list \<times> download_result option" where
  "try_parts c [] k = ([], None)"
| "try_parts c (pdfPart # rest) k =
     (case a_download c k (pp_path pdfPart) of
        Inr res \<Rightarrow> ([Log (Log_trying (pp_path pdfPart) (pp_filename pdfPart))], Some res)
      | Inl partErr \<Rightarrow>
          (case try_parts c rest (k + 1) of
             (logs, found) \<Rightarrow>
               ([Log (Log_trying (pp_path pdfPart) (pp_filename pdfPart)),
                 Log (Log_part_failed (pp_path pdfPart) partErr)] @ logs, found)))"

text \<open>The direct download and, when it throws, the search for another PDF part.\<close>

definition obtain_download ::
  "attempt_client \<Rightarrow> string \<Rightarrow> effect list \<times> (string + download_result)" where
  "obtain_download c part_id =
     (case a_download c 0 part_id of
        Inr res \<Rightarrow> ([], Inr res)
      | Inl downloadErr \<Rightarrow>
          (let logs = [Log (Log_direct_failed part_id downloadErr)]
           in case a_fetchStructure c of
                Inl e \<Rightarrow> (logs, Inl e)
              | Inr None \<Rightarrow> (logs, Inl ''Could not get message structure'')
              | Inr (Some bs) \<Rightarrow>
                  (case findPdfParts bs [] of
                     Inl e \<Rightarrow> (logs, Inl e)
                   | Inr pdfParts \<Rightarrow>
                       (let logs2 = logs @ [Log (Log_found_parts pdfParts)]
                        in if pdfParts = []
                           then (logs2, Inl ''No PDF attachments found in message'')
                           else (case try_parts c pdfParts 1 of
                                   (logs3, None) \<Rightarrow>
                                     (logs2 @ logs3, Inl ''Could not download any PDF attachment'')
                                 | (logs3, Some res) \<Rightarrow> (logs2 @ logs3, Inr res))))))"

text \<open>\<open>buffer[i]\<close>: \<open>undefined\<close> beyond the end.\<close>

definition byte_at :: "byte list \<Rightarrow> nat \<Rightarrow> byte option" where
  "byte_at buffer i = (if i < length buffer then Some (buffer ! i) else None)"

definition isPdf :: "byte list \<Rightarrow> bool" where
  "isPdf buffer =
     (byte_at buffer 0 = Some 0x25 \<and> byte_at buffer 1 = Some 0x50 \<and>
      byte_at buffer 2 = Some 0x44 \<and> byte_at buffer 3 = Some 0x46)"

text \<open>
  The message of the error thrown for a payload that is not a PDF. \<open>toString_utf8\<close> is
  \<open>Buffer.prototype.toString('utf-8')\<close>, a function of the platform.
\<close>

definition not_pdf_message :: "(byte list \<Rightarrow> string) \<Rightarrow> byte list \<Rightarrow> string" where
  "not_pdf_message toString_utf8 buffer =
     ''Downloaded content is not a valid PDF (got '' @ decimal (length buffer) @
     '' bytes, starts with: '' @ take 50 (toString_utf8 (take 100 buffer)) @ '')''"

text \<open>From the download result to the validated buffer.\<close>

definition validate ::
  "(byte list \<Rightarrow> string) \<Rightarrow> download_result \<Rightarrow> effect list \<times> (string + byte list \<times> string option)" where
  "validate toString_utf8 downloadResult =
     (case downloadResult of
        No_result \<Rightarrow> ([], Inl ''No content returned from download'')
      | Result None meta \<Rightarrow> ([], Inl ''No content returned from download'')
      | Result (Some (Inl streamErr)) meta \<Rightarrow> ([], Inl streamErr)
      | Result (Some (Inr buffer)) meta \<Rightarrow>
          (if length buffer = 0 then ([], Inl ''Downloaded attachment is empty'')
           else if \<not> isPdf buffer
           then ([Log (Log_not_pdf (toString_utf8 (take 100 buffer)))],
                 Inl (not_pdf_message toString_utf8 buffer))
           else ([Log (Log_success (length buffer))], Inr (buffer, meta))))"

text \<open>The \<open>try\<close> block of one attempt: its effects, and the response or the error thrown.\<close>

definition attempt_try ::
  "(byte list \<Rightarrow> string) \<Rightarrow> attempt_client \<Rightarrow> jsnum \<Rightarrow> string \<Rightarrow> nat \<Rightarrow>
     effect list \<times> (string + attachment_body)" where
  "attempt_try toString_utf8 c msg_uid part_id attempt =
     (case a_connect c of
        Some e \<Rightarrow> ([Create_client attempt], Inl e)
      | None \<Rightarrow>
     (case a_mailboxOpen c of
        Some e \<Rightarrow> ([Create_client attempt], Inl e)
      | None \<Rightarrow>
     (let fx = [Create_client attempt, Log (Log_downloading msg_uid part_id attempt)]
      in case obtain_download c part_id of
           (logs, Inl e) \<Rightarrow> (fx @ logs, Inl e)
         | (logs, Inr downloadResult) \<Rightarrow>
        (case validate toString_utf8 downloadResult of
           (logs2, Inl e) \<Rightarrow> (fx @ logs @ logs2, Inl e)
         | (logs2, Inr (buffer, meta)) \<Rightarrow>
        (case a_logout c of
           Some e \<Rightarrow> (fx @ logs @ logs2, Inl e)
         | None \<Rightarrow>
             (fx @ logs @ logs2,
              Inr \<lparr> payload = buffer, ab_filename = str_or meta ''document.pdf'',
                    ab_size = length buffer \<rparr>))))))"

text \<open>\<open>1000 * Math.pow(2, attempt - 1)\<close>\<close>

definition waitMs :: "nat \<Rightarrow> nat" where
  "waitMs attempt = 1000 * 2 ^ (attempt - 1)"

text \<open>The \<open>catch\<close> block of one attempt.\<close>

definition attempt_catch :: "nat \<Rightarrow> string \<Rightarrow> effect list" where
  "attempt_catch attempt msg =
     Log (Log_download_error attempt msg) #
     (if attempt < MAX_RETRIES
      then [Log (Log_waiting (waitMs attempt)), Wait (waitMs attempt)] else [])"

text \<open>
  The \<open>for\<close> loop from \<open>attempt\<close> on; \<open>env k\<close> is the client that
  \<open>createClient\<close> makes in attempt \<open>k\<close> from the credentials of the request, and
  \<open>lastError\<close> the message of the last error caught.
\<close>

function attachment_loop ::
  "(byte list \<Rightarrow> string) \<Rightarrow> (nat \<Rightarrow> attempt_client) \<Rightarrow> jsnum \<Rightarrow> string \<Rightarrow> nat \<Rightarrow>
     string option \<Rightarrow> effect list \<times> attachment_response" where
  "attachment_loop toString_utf8 env msg_uid part_id attempt lastError =
     (if attempt \<le> MAX_RETRIES
      then (case attempt_try toString_utf8 (env attempt) msg_uid part_id attempt of
              (fx, Inr body) \<Rightarrow> (fx, Attachment_ok body)
            | (fx, Inl msg) \<Rightarrow>
                (case attachment_loop toString_utf8 env msg_uid part_id (attempt + 1) (Some msg) of
                   (later, response) \<Rightarrow> (fx @ attempt_catch attempt msg @ later, response)))
      else ([Log (Log_all_failed msg_uid part_id (case lastError of None \<Rightarrow> [] | Some m \<Rightarrow> m))],
            Attachment_error 500
              (message_or (case lastError of None \<Rightarrow> [] | Some m \<Rightarrow> m)
                 ''Download failed after retries'')))"
  by pat_completeness auto
termination
  by (relation "measure (\<lambda>(u, env, msg_uid, part_id, attempt, lastError). MAX_RETRIES + 1 - attempt)")
     (auto simp: MAX_RETRIES_def)

declare attachment_loop.simps [simp del]

text \<open>
  The handler: \<open>createClient k email password\<close> is the client that attempt \<open>k\<close>
  creates from the credentials.
\<close>

definition attachment_handler ::
  "(byte list \<Rightarrow> string) \<Rightarrow> (nat \<Rightarrow> string \<Rightarrow> string \<Rightarrow> attempt_client) \<Rightarrow>
     attachment_request \<Rightarrow> effect list \<times> attachment_response" where
  "attachment_handler toString_utf8 createClient req =
     (if \<not> credentials_present (ar_email req) (ar_password req) \<or> \<not> truthy (messageUid req) \<or>
         str_or (ar_partId req) [] = []
      then ([], Attachment_error 400 ''Missing required parameters'')
      else attachment_loop toString_utf8
             (\<lambda>k. createClient k (str_or (ar_email req) []) (str_or (ar_password req) []))
             (messageUid req) (str_or (ar_partId req) []) 1 None)"

section \<open>\<open>/search-text\<close>\<close>








section \<open>\<open>/message\<close>\<close>




section \<open>Notions used to state the properties of the scans\<close>

text \<open>The error that stops the batch loop from index \<open>i\<close> on, if \<open>fetch\<close> throws.\<close>

function fetch_error :: "imap \<Rightarrow> int list \<Rightarrow> nat \<Rightarrow> string option" where
  "fetch_error c allUids i =
     (if i < length allUids
      then (if batch_slice allUids i = [] then None
            else (case fetch c (batch_slice allUids i) of
                    (msgs, err) \<Rightarrow>
                      (case err of
                         Some e \<Rightarrow> Some e
                       | None \<Rightarrow> fetch_error c allUids (i + FETCH_BATCH_SIZE))))
      else None)"
  by pat_completeness auto
termination
  by (relation "measure (\<lambda>(c, allUids, i). length allUids - i)")
     (auto simp: FETCH_BATCH_SIZE_def)

declare fetch_error.simps [simp del]

text \<open>The UIDs a scan works on: the search result, newest first.\<close>

definition scan_uids :: "imap \<Rightarrow> criteria \<Rightarrow> int list" where
  "scan_uids c crit =
     sort_desc (case search c crit of Inl e \<Rightarrow> [] | Inr None \<Rightarrow> [] | Inr (Some us) \<Rightarrow> us)"

text \<open>The messages a run of \<open>/search\<close> and of \<open>/search-stream\<close> fetches, in order.\<close>

definition search_fetched ::
  "(string \<Rightarrow> string \<Rightarrow> imap) \<Rightarrow> int \<Rightarrow> 'a search_request_scheme \<Rightarrow> message list" where
  "search_fetched createClient now req =
     fetched (client_of createClient req)
       (scan_uids (client_of createClient req) (search_criteria now req)) 0"

definition stream_fetched ::
  "(string \<Rightarrow> string \<Rightarrow> imap) \<Rightarrow> int \<Rightarrow> 'a stream_request_scheme \<Rightarrow> message list" where
  "stream_fetched createClient now req =
     fetched (client_of createClient req)
       (scan_uids (client_of createClient req) (stream_criteria now req)) 0"

text \<open>
  The messages of all \<open>pdf_batch\<close> events of a stream, in order, and the test of the
  resume skip.
\<close>

fun batched :: "event list \<Rightarrow> pdf_message list" where
  "batched [] = []"
| "batched (Pdf_batch ms n # es) = ms @ batched es"
| "batched (e # es) = batched es"

definition skipped :: "jsnum \<Rightarrow> message \<Rightarrow> bool" where
  "skipped resume msg = (truthy resume \<and> uid msg \<ge> toNumber resume)"

text \<open>The value of a counter after \<open>n\<close> increments.\<close>

definition increments :: "nat \<Rightarrow> int \<Rightarrow> int" where
  "increments n x = (js_inc ^^ n) x"

text \<open>
  The client whose \<open>fetch\<close> never yields a message with a UID of \<open>U\<close> or more, and
  is the given client otherwise.
\<close>

definition without_resumed :: "int \<Rightarrow> imap \<Rightarrow> imap" where
  "without_resumed U c =
     c\<lparr> fetch := (\<lambda>uids. (filter (\<lambda>x. uid x < U) (fst (fetch c uids)), snd (fetch c uids))) \<rparr>"

text \<open>
  The state of \<open>/search-stream\<close> when its batch loop ends, after the \<open>start\<close> event
  with \<open>totalInMailbox = n\<close>.
\<close>

definition stream_loop_state :: "imap \<Rightarrow> int \<Rightarrow> stream_request \<Rightarrow> nat \<Rightarrow> stream_state" where
  "stream_loop_state c now req n =
     foldl (stream_step (resumeAfterUid req) (withDefault (maxResults req) (Finite 5000))
              (previousScanned req) (length (scan_uids c (stream_criteria now req))))
       (stream_init req [start_of n req])
       (fetched c (scan_uids c (stream_criteria now req)) 0)"

text \<open>The events the loop itself can write: \<open>start\<close>, \<open>progress\<close>, \<open>pdf_batch\<close>.\<close>

fun scan_event :: "event \<Rightarrow> bool" where
  "scan_event (Start s) = True"
| "scan_event (Progress p) = True"
| "scan_event (Pdf_batch ms n) = True"
| "scan_event (Complete ce) = False"
| "scan_event (Error e) = False"

subsection \<open>The mailbox of the result-cap scenario\<close>

text \<open>
  120 messages with the UIDs 1 to 120; the six whose UID is a multiple of 20 carry
  \<open>inv.pdf\<close>. No call of the client fails, whatever the credentials.
\<close>

definition scenario_message :: "int \<Rightarrow> message" where
  "scenario_message u =
     \<lparr> uid = u,
       envelope = \<lparr> subject = Some ''Invoice'',
                    from_addrs = [\<lparr> name = Some ''Billing'', mailbox = Some ''billing'',
                                    host = Some ''example.com'' \<rparr>],
                    date = Some ''2024-01-01T00:00:00.000Z'' \<rparr>,
       bodyStructure = Some (if u mod 20 = 0 then client_invoice_tree else client_text_leaf) \<rparr>"

definition mailbox120 :: imap where
  "mailbox120 =
     \<lparr> connect = None, status_messages = Inr 120, status_stats = Inr (120, 0),
       mailboxOpen = None,
       search = (\<lambda>crit. Inr (Some [1..120])),
       fetch = (\<lambda>uids. (map scenario_message uids, None)),
       fetch_query = (\<lambda>crit. (map scenario_message [1..120], None)),
       fetchOne = (\<lambda>u. Inr (Some (scenario_message (toNumber u)))),
       logout = None \<rparr>"

definition cap5_request :: search_request where
  "cap5_request =
     \<lparr> email = Some ''user@example.com'', password = Some ''app-password'', daysBack = None,
       maxResults = Some (Finite 5) \<rparr>"

definition cap5_stream_request :: stream_request where
  "cap5_stream_request =
     \<lparr> email = Some ''user@example.com'', password = Some ''app-password'', daysBack = None,
       maxResults = Some (Finite 5), resumeAfterUid = Null, sinceUid = Null,
       previousScanned = 0, previousWithPdf = 0 \<rparr>"

text \<open>
  The same scans with a cap that is not a whole number, with a negative cap, and a
  stream that continues an earlier run whose count had reached \<open>2^53\<close>.
\<close>

definition fractional_cap_request :: search_request where
  "fractional_cap_request =
     \<lparr> email = Some ''user@example.com'', password = Some ''app-password'', daysBack = None,
       maxResults = Some (Finite (5 / 2)) \<rparr>"

definition negative_cap_request :: search_request where
  "negative_cap_request =
     \<lparr> email = Some ''user@example.com'', password = Some ''app-password'', daysBack = None,
       maxResults = Some (Finite (- 1)) \<rparr>"

definition large_count_request :: stream_request where
  "large_count_request =
     \<lparr> email = Some ''user@example.com'', password = Some ''app-password'', daysBack = None,
       maxResults = Some (Finite 5), resumeAfterUid = Null, sinceUid = Null,
       previousScanned = 2 ^ 53, previousWithPdf = 0 \<rparr>"

text \<open>A resumed scan of that mailbox: the messages from UID 61 up were done before.\<close>

definition resume_request :: stream_request where
  "resume_request =
     \<lparr> email = Some ''user@example.com'', password = Some ''app-password'', daysBack = None,
       maxResults = None, resumeAfterUid = Num 61, sinceUid = Null,
       previousScanned = 60, previousWithPdf = 3 \<rparr>"

text \<open>A scan of that mailbox with \<open>resumeAfterUid = 0\<close>.\<close>

definition resume_zero_request :: stream_request where
  "resume_zero_request =
     \<lparr> email = Some ''user@example.com'', password = Some ''app-password'', daysBack = None,
       maxResults = None, resumeAfterUid = Num 0, sinceUid = Null,
       previousScanned = 0, previousWithPdf = 0 \<rparr>"

section \<open>Notions used to state the properties of \<open>/attachment\<close>\<close>

text \<open>
  The calls of \<open>createClient\<close> and the waits of a run, in order, without the log
  lines; the magic bytes.
\<close>

fun timed :: "effect \<Rightarrow> bool" where
  "timed (Create_client k) = True"
| "timed (Wait ms) = True"
| "timed (Log l) = False"

definition timeline :: "effect list \<Rightarrow> effect list" where
  "timeline fx = filter timed fx"

definition PDF_MAGIC :: "byte list" where
  "PDF_MAGIC = [0x25, 0x50, 0x44, 0x46]"

subsection \<open>The payloads and clients of the attachment scenarios\<close>

text \<open>
  \<open>ascii_decode\<close> is \<open>toString('utf-8')\<close> on bytes below \<open>0x80\<close>, where the decoding
  is the byte itself; the scenarios use it on such bytes only. \<open>html_payload\<close> is
  \<open><html>404</html>\<close> and \<open>pdf_payload\<close> is \<open>%PDF-1.7\<close>. \<open>html_client\<close> answers
  every download with the HTML body; \<open>pdf_client\<close> fails every download but the one
  of part \<open>2\<close>.
\<close>

definition ascii_decode :: "byte list \<Rightarrow> string" where
  "ascii_decode bs = map (\<lambda>b. char_of (unat b)) bs"

definition html_payload :: "byte list" where
  "html_payload = [0x3C, 0x68, 0x74, 0x6D, 0x6C, 0x3E, 0x34, 0x30, 0x34, 0x3C, 0x2F, 0x68, 0x74, 0x6D, 0x6C, 0x3E]"

definition pdf_payload :: "byte list" where
  "pdf_payload = [0x25, 0x50, 0x44, 0x46, 0x2D, 0x31, 0x2E, 0x37]"

definition html_client :: attempt_client where
  "html_client = \<lparr> a_connect = None, a_mailboxOpen = None,
     a_download = (\<lambda>k path. Inr (Result (Some (Inr html_payload)) (Some ''inv.pdf''))),
     a_fetchStructure = Inr (Some invoice_tree), a_logout = None \<rparr>"

definition pdf_client :: attempt_client where
  "pdf_client = \<lparr> a_connect = None, a_mailboxOpen = None,
     a_download = (\<lambda>k path. if path = ''2'' then Inr (Result (Some (Inr pdf_payload)) None) else Inl ''Command failed''),
     a_fetchStructure = Inr (Some invoice_tree), a_logout = None \<rparr>"

definition attachment_scenario_request :: attachment_request where
  "attachment_scenario_request = \<lparr> ar_email = Some ''user@example.com'', ar_password = Some ''app-password'',
     messageUid = Num 42, ar_partId = Some ''1.2'' \<rparr>"


section \<open>Clients that depend on the credentials\<close>




section \<open>Properties of the walk\<close>

lemmas walk_eval =
  extractPdfAttachments_def extractPdfAttachments_index_def is_pdf_def mimeType_of_def
  filename_of_def toLowerCase_def lower_char_def endsWith_def startsWith_def descriptor_def
  descriptor_index_def childPath_def decimal.simps digit_def size_or_0_def isMultipart_def

lemmas scenario_trees =
  text_plain_leaf_def inv_pdf_leaf_def invoice_tree_def named_container_tree_def
  unnamed_pdf_leaf_def

lemmas client_trees =
  client_text_leaf_def client_pdf_leaf_def client_unnamed_pdf_leaf_def client_invoice_tree_def
  client_named_container_tree_def

lemma decimal_not_Nil: "decimal n \<noteq> []"
  by (subst decimal.simps) simp

lemma extend_path_not_Nil: "extend_path p i \<noteq> []"
  by (simp add: extend_path_def decimal_not_Nil)

lemma path_at_snoc: "path_at (pos @ [i]) = extend_path (path_at pos) i"
  by (simp add: path_at_def)

lemma path_at_Nil_iff: "path_at pos = [] \<longleftrightarrow> pos = []"
proof (cases pos rule: rev_cases)
  case Nil
  then show ?thesis by (simp add: path_at_def)
next
  case (snoc qs i)
  then show ?thesis by (simp add: path_at_snoc extend_path_not_Nil)
qed

lemma childPath_path_at: "childPath (path_at pos) index = path_at (pos @ [index + 1])"
  by (simp add: childPath_def path_at_snoc extend_path_def)

text \<open>
  The current walk numbers every descriptor by the invariant: the part ids it returns
  are the invariant's paths of the PDF nodes, in document order, with \<open>1\<close> for the root.
\<close>

lemma walk_partIds:
  "map partId (walk p (path_at pos)) =
     map (\<lambda>q. if q = [] then ''1'' else path_at q) (pdf_nodes p pos)"
  "map partId (walk_children cs index (path_at pos)) =
     map (\<lambda>q. if q = [] then ''1'' else path_at q) (pdf_nodes_children cs index pos)"
proof (induction p pos and cs index pos rule: pdf_nodes_pdf_nodes_children.induct)
  case (1 ty sub df pn sz enc cs pos)
  then show ?case by (simp add: descriptor_def path_at_Nil_iff)
next
  case (2 index pos)
  show ?case by simp
next
  case (3 cs index pos)
  then show ?case by simp
next
  case (4 c cs index pos)
  then show ?case by (simp add: childPath_path_at)
qed

lemma extractPdfAttachments_partIds:
  "map partId (extractPdfAttachments (Some p)) =
     map (\<lambda>q. if q = [] then ''1'' else path_at q) (pdf_nodes p [])"
  using walk_partIds(1) [of p "[]"] by (simp add: extractPdfAttachments_def path_at_def)

text \<open>The current walk on the scenario tree: one descriptor, \<open>inv.pdf\<close> at part \<open>2\<close>.\<close>

lemma extractPdfAttachments_invoice_tree:
  "extractPdfAttachments (Some invoice_tree) =
     [\<lparr> filename = ''inv.pdf'', mimeType = ''application/pdf'', size_bytes = 2048,
        partId = ''2'', encoding = Some ''base64'' \<rparr>]"
  by (simp add: scenario_trees walk_eval)

text \<open>
  C1. On \<open>multipart/mixed[ text/plain, application/pdf(filename="inv.pdf") ]\<close> each
  walk returns exactly one descriptor, named \<open>inv.pdf\<close>. The current walk gives it
  the part id \<open>2\<close>, as the scenario says. The walk of \<open>src/index.js\<close> gives it the
  part id \<open>1.2\<close>: it starts at \<open>'1'\<close> and never numbers a child by its index alone.
\<close>

theorem extractPdfAttachments_index_invoice_tree:
  "extractPdfAttachments (Some invoice_tree) =
     [\<lparr> filename = ''inv.pdf'', mimeType = ''application/pdf'', size_bytes = 2048,
        partId = ''2'', encoding = Some ''base64'' \<rparr>] \<and>
   extractPdfAttachments_index (Some invoice_tree) =
     [\<lparr> filename = ''inv.pdf'', mimeType = ''application/pdf'', size_bytes = 2048,
        partId = ''1.2'', encoding = None \<rparr>]"
  by (simp add: scenario_trees walk_eval)

lemma walk_filename_not_Nil:
  "a \<in> set (walk p path) \<Longrightarrow> filename a \<noteq> []"
  "a \<in> set (walk_children cs index path) \<Longrightarrow> filename a \<noteq> []"
  by (induction p path and cs index path rule: walk_walk_children.induct)
     (auto simp: descriptor_def split: if_splits)

lemma walk_index_filename_not_Nil:
  "a \<in> set (walk_index p pid) \<Longrightarrow> filename a \<noteq> []"
  "a \<in> set (walk_index_children cs index pid) \<Longrightarrow> filename a \<noteq> []"
  by (induction p pid and cs index pid rule: walk_index_walk_index_children.induct)
     (auto simp: descriptor_index_def split: if_splits)

lemma walk_hd:
  "is_pdf p \<Longrightarrow> walk p path = descriptor p path # walk_children (childNodes p) 0 path"
  by (cases p) simp

lemma walk_index_hd:
  "is_pdf p \<Longrightarrow>
   walk_index p pid = descriptor_index p pid # walk_index_children (childNodes p) 0 pid"
  by (cases p) simp

text \<open>
  C2. A \<open>multipart/mixed\<close> container whose content parameter \<open>name\<close> is
  \<open>bundle.pdf\<close> is reported by both walks, as the first descriptor: the test before
  the push looks at the MIME type and the file name only, and \<open>isMultipart\<close> is not
  consulted. The current walk gives the container the part id \<open>1\<close>.
\<close>

theorem named_container_reported:
  "isMultipart named_container_tree \<and>
   extractPdfAttachments (Some named_container_tree) =
     [\<lparr> filename = ''bundle.pdf'', mimeType = ''multipart/mixed'', size_bytes = 0,
        partId = ''1'', encoding = None \<rparr>,
      \<lparr> filename = ''inv.pdf'', mimeType = ''application/pdf'', size_bytes = 2048,
        partId = ''2'', encoding = Some ''base64'' \<rparr>] \<and>
   extractPdfAttachments_index (Some named_container_tree) =
     [\<lparr> filename = ''bundle.pdf'', mimeType = ''multipart/mixed'', size_bytes = 0,
        partId = ''1'', encoding = None \<rparr>,
      \<lparr> filename = ''inv.pdf'', mimeType = ''application/pdf'', size_bytes = 2048,
        partId = ''1.2'', encoding = None \<rparr>]"
  by (simp add: scenario_trees walk_eval)

text \<open>The PDF test does not depend on the case of the letters.\<close>

lemma toLowerCase_examples:
  "toLowerCase ''INV.PDF'' = ''inv.pdf''"
  "toLowerCase ''Application/PDF'' = ''application/pdf''"
  "toLowerCase [CHR 0xC9, CHR 0xD7, CHR 0xDF, CHR ''9''] = [CHR 0xE9, CHR 0xD7, CHR 0xDF, CHR ''9'']"
  by code_simp+

text \<open>
  The part ids of the two walks on the trees in the shape the client delivers: the walk
  of \<open>src/index.js\<close> gives the PDF leaf the part id \<open>1.2\<close> there too, and both
  walks report the container named \<open>bundle.pdf\<close>.
\<close>

lemma client_tree_part_ids:
  "map partId (extractPdfAttachments (Some client_invoice_tree)) = [''2'']"
  "map partId (extractPdfAttachments_index (Some client_invoice_tree)) = [''1.2'']"
  "map filename (extractPdfAttachments (Some client_named_container_tree)) =
     [''bundle.pdf'', ''inv.pdf'']"
  "map filename (extractPdfAttachments_index (Some client_named_container_tree)) =
     [''bundle.pdf'', ''inv.pdf'']"
  "isMultipart client_named_container_tree"
  by (simp_all add: client_trees walk_eval)








text \<open>
  In the other shape of a node, \<open>type\<close> and \<open>subtype\<close> apart, a leaf without a name
  passes the PDF test by its MIME type, and both walks write \<open>document.pdf\<close>.
\<close>

lemma unnamed_pdf_leaf_name:
  "is_pdf unnamed_pdf_leaf \<and> filename_of unnamed_pdf_leaf = [] \<and>
   map filename (extractPdfAttachments (Some unnamed_pdf_leaf)) = [''document.pdf''] \<and>
   map filename (extractPdfAttachments_index (Some unnamed_pdf_leaf)) = [''document.pdf'']"
  by (simp add: scenario_trees walk_eval)




section \<open>Properties of the search window\<close>

text \<open>
  C6. For every requested \<open>daysBack\<close> of at least 1, the days-back that \<open>/search\<close>
  and \<open>/search-stream\<close> (full scan) use for the date bound is \<open>min daysBack 3650\<close>;
  3650 and 100000 give the same date bound in both handlers.
\<close>

theorem effectiveDaysBack_clamp:
  assumes "1 \<le> n" and "daysBack req = Some (Num n)"
    and "daysBack sreq = Some (Num n)" and "\<not> truthy (sinceUid sreq)"
  shows "effectiveDaysBack (Num n) = min n 3650 \<and>
         search_criteria now req = Since (now - min n 3650) \<and>
         stream_criteria now sreq = Since (now - min n 3650) \<and>
         sinceDate now (Num 3650) = sinceDate now (Num 100000)"
  using assms
  by (simp add: effectiveDaysBack_def sinceDate_def search_criteria_def stream_criteria_def)

theorem effectiveDaysBack_clamp_witness:
  "(1::int) \<le> 100000 \<and> effectiveDaysBack (Num 100000) = 3650 \<and>
   search_criteria 20000
     \<lparr> email = Some ''a@b.c'', password = Some ''pw'', daysBack = Some (Num 100000),
       maxResults = None \<rparr> = Since 16350 \<and>
   stream_criteria 20000
     \<lparr> email = Some ''a@b.c'', password = Some ''pw'', daysBack = Some (Num 100000),
       maxResults = None, resumeAfterUid = Null, sinceUid = Null, previousScanned = 0,
       previousWithPdf = 0 \<rparr> = Since 16350"
  using effectiveDaysBack_clamp [of 100000
     "\<lparr> email = Some ''a@b.c'', password = Some ''pw'', daysBack = Some (Num 100000),
        maxResults = None \<rparr>"
     "\<lparr> email = Some ''a@b.c'', password = Some ''pw'', daysBack = Some (Num 100000),
        maxResults = None, resumeAfterUid = Null, sinceUid = Null, previousScanned = 0,
        previousWithPdf = 0 \<rparr>" 20000]
  by simp

text \<open>
  C10. In both handlers a falsy \<open>daysBack\<close> (0 or \<open>null\<close>) is replaced by 365: the
  date bound is 365 days back, as it is when the field is absent.
\<close>

theorem effectiveDaysBack_falsy:
  assumes "\<not> truthy d" and "daysBack req = Some d"
    and "daysBack sreq = Some d" and "\<not> truthy (sinceUid sreq)"
  shows "effectiveDaysBack d = 365 \<and>
         search_criteria now req = Since (now - 365) \<and>
         stream_criteria now sreq = Since (now - 365)"
  using assms
  by (cases d) (simp_all add: effectiveDaysBack_def sinceDate_def search_criteria_def
      stream_criteria_def)

theorem effectiveDaysBack_falsy_witness:
  "\<not> truthy (Num 0) \<and> effectiveDaysBack (Num 0) = 365 \<and>
   search_criteria 20000
     \<lparr> email = Some ''a@b.c'', password = Some ''pw'', daysBack = Some (Num 0),
       maxResults = None \<rparr> = Since 19635 \<and>
   stream_criteria 20000
     \<lparr> email = Some ''a@b.c'', password = Some ''pw'', daysBack = Some (Num 0),
       maxResults = None, resumeAfterUid = Null, sinceUid = Null, previousScanned = 0,
       previousWithPdf = 0 \<rparr> = Since 19635"
  using effectiveDaysBack_falsy [of "Num 0"
     "\<lparr> email = Some ''a@b.c'', password = Some ''pw'', daysBack = Some (Num 0),
        maxResults = None \<rparr>"
     "\<lparr> email = Some ''a@b.c'', password = Some ''pw'', daysBack = Some (Num 0),
        maxResults = None, resumeAfterUid = Null, sinceUid = Null, previousScanned = 0,
        previousWithPdf = 0 \<rparr>" 20000]
  by simp

section \<open>Properties of the scans\<close>

subsection \<open>The counters\<close>

lemma spacing_small: "a < 2 ^ 53 \<Longrightarrow> spacing 1 a = 1"
  by (subst spacing.simps) simp

lemma round_double_exact: "\<bar>n\<bar> < 2 ^ 53 \<Longrightarrow> round_double n = n"
  by (simp add: round_double_def Let_def spacing_small)

lemma js_inc_exact: "- (2 ^ 53) \<le> x \<Longrightarrow> x + 1 < 2 ^ 53 \<Longrightarrow> js_inc x = x + 1"
  by (simp add: js_inc_def round_double_exact)

lemma increments_simps [simp]:
  "increments 0 x = x"
  "increments (Suc n) x = increments n (js_inc x)"
  by (simp_all add: increments_def funpow_swap1)

lemma increments_exact:
  "- (2 ^ 53) \<le> x \<Longrightarrow> x + int n < 2 ^ 53 \<Longrightarrow> increments n x = x + int n"
proof (induction n arbitrary: x)
  case 0
  show ?case by simp
next
  case (Suc n)
  have "js_inc x = x + 1"
    using Suc.prems by (intro js_inc_exact) simp_all
  moreover have "increments n (x + 1) = x + 1 + int n"
    using Suc.prems by (intro Suc.IH) simp_all
  ultimately show ?case by simp
qed

text \<open>At \<open>2^53\<close> an increment is lost: \<open>2^53 + 1\<close> is no double, and the tie goes to \<open>2^53\<close>.\<close>

lemma js_inc_lost: "js_inc 9007199254740992 = 9007199254740992"
  by code_simp

lemma round_double_examples:
  "round_double (2 ^ 53 + 1) = 2 ^ 53"
  "round_double (2 ^ 53 + 3) = 2 ^ 53 + 4"
  "round_double (2 ^ 54 + 2) = 2 ^ 54"
  "round_double (2 ^ 54 + 6) = 2 ^ 54 + 8"
  "round_double (- (2 ^ 53) - 1) = - (2 ^ 53)"
  "js_inc (2 ^ 53 + 2) = 2 ^ 53 + 4"
  "js_sub (2 ^ 53) (2 ^ 53) = 0"
  by code_simp+

lemma increments_lost: "increments n 9007199254740992 = 9007199254740992"
  by (induction n) (simp_all add: js_inc_lost)

subsection \<open>The cap\<close>

lemma length_below_Finite: "length_below n (Finite x) \<longleftrightarrow> n < nat \<lceil>x\<rceil>"
proof -
  have "real n < x \<longleftrightarrow> int n < \<lceil>x\<rceil>"
    by (simp add: less_ceiling_iff)
  then show ?thesis
    by (simp add: length_below_def zless_nat_eq_int_zless)
qed

lemma take_cap_step:
  "n < cap \<Longrightarrow> x # take (cap - Suc n) ys = take (cap - n) (x # ys)"
proof -
  assume "n < cap"
  then have "cap - n = Suc (cap - Suc n)" by simp
  then show ?thesis by simp
qed

subsection \<open>The loops\<close>

lemma search_batches_eq:
  "search_batches c maxR allUids i st =
     (foldl (search_step maxR) st (fetched c allUids i), fetch_error c allUids i)"
proof (induction c maxR allUids i st rule: search_batches.induct)
  case (1 c maxR allUids i st)
  show ?case
    apply (subst search_batches.simps)
    apply (subst fetched.simps)
    apply (subst fetch_error.simps)
    using 1 by (auto split: prod.splits option.splits)
qed

lemma stream_batches_eq:
  "stream_batches c resume maxR prev allUids i st =
     (foldl (stream_step resume maxR prev (length allUids)) st (fetched c allUids i),
      fetch_error c allUids i)"
proof (induction c resume maxR prev allUids i st rule: stream_batches.induct)
  case (1 c resume maxR prev allUids i st)
  show ?case
    apply (subst stream_batches.simps)
    apply (subst fetched.simps)
    apply (subst fetch_error.simps)
    using 1 by (auto split: prod.splits option.splits)
qed

lemma search_step_fields:
  "s_totalEmailsScanned (search_step maxR st x) = js_inc (s_totalEmailsScanned st)"
  "s_totalWithPdf (search_step maxR st x) =
     (if has_pdf x then js_inc (s_totalWithPdf st) else s_totalWithPdf st)"
  "s_messages (search_step maxR st x) =
     s_messages st @
       (if has_pdf x \<and> length_below (length (s_messages st)) maxR then [pdfMsg x] else [])"
  by (auto simp: search_step_def Let_def has_pdf_def)

lemma search_fold_totals:
  "s_totalEmailsScanned (foldl (search_step maxR) st msgs) =
     increments (length msgs) (s_totalEmailsScanned st)"
  "s_totalWithPdf (foldl (search_step maxR) st msgs) =
     increments (length (filter has_pdf msgs)) (s_totalWithPdf st)"
  by (induction msgs arbitrary: st) (simp_all add: search_step_fields)

lemma search_fold_messages:
  assumes cap: "\<And>n. length_below n maxR \<longleftrightarrow> n < k"
  shows "s_messages (foldl (search_step maxR) st msgs) =
     s_messages st @ take (k - length (s_messages st)) (map pdfMsg (filter has_pdf msgs))"
proof (induction msgs arbitrary: st)
  case Nil
  show ?case by simp
next
  case (Cons x xs)
  show ?case
    by (simp add: Cons.IH search_step_fields cap take_cap_step)
qed

lemma batched_append [simp]: "batched (xs @ ys) = batched xs @ batched ys"
  by (induction xs rule: batched.induct) simp_all

lemma sendEvent_fields [simp]:
  "messages (sendEvent e st) = messages st"
  "pendingMessages (sendEvent e st) = pendingMessages st"
  "totalEmailsScanned (sendEvent e st) = totalEmailsScanned st"
  "totalWithPdf (sendEvent e st) = totalWithPdf st"
  "lastProcessedUid (sendEvent e st) = lastProcessedUid st"
  "skippedToResume (sendEvent e st) = skippedToResume st"
  "sent (sendEvent e st) = sent st @ [e]"
  by (simp_all add: sendEvent_def)

lemma send_progress_fields [simp]:
  "messages (send_progress prev n st) = messages st"
  "pendingMessages (send_progress prev n st) = pendingMessages st"
  "totalEmailsScanned (send_progress prev n st) = totalEmailsScanned st"
  "totalWithPdf (send_progress prev n st) = totalWithPdf st"
  "lastProcessedUid (send_progress prev n st) = lastProcessedUid st"
  "skippedToResume (send_progress prev n st) = skippedToResume st"
  "batched (sent (send_progress prev n st)) = batched (sent st)"
  by (simp_all add: send_progress_def)

lemma push_pdf_fields [simp]:
  "totalEmailsScanned (push_pdf maxR x st) = totalEmailsScanned st"
  "totalWithPdf (push_pdf maxR x st) = totalWithPdf st"
  "lastProcessedUid (push_pdf maxR x st) = lastProcessedUid st"
  "skippedToResume (push_pdf maxR x st) = skippedToResume st"
  "messages (push_pdf maxR x st) =
     messages st @ (if length_below (length (messages st)) maxR then [pdfMsg x] else [])"
  "batched (sent (push_pdf maxR x st)) @ pendingMessages (push_pdf maxR x st) =
     batched (sent st) @ pendingMessages st @
       (if length_below (length (messages st)) maxR then [pdfMsg x] else [])"
  by (auto simp: push_pdf_def Let_def)

lemma stream_step_fields:
  "totalEmailsScanned (stream_step resume maxR prev n st x) =
     (if skipped resume x then totalEmailsScanned st else js_inc (totalEmailsScanned st))"
  "totalWithPdf (stream_step resume maxR prev n st x) =
     (if \<not> skipped resume x \<and> has_pdf x then js_inc (totalWithPdf st) else totalWithPdf st)"
  "messages (stream_step resume maxR prev n st x) =
     messages st @ (if \<not> skipped resume x \<and> has_pdf x \<and> length_below (length (messages st)) maxR
                    then [pdfMsg x] else [])"
  "batched (sent (stream_step resume maxR prev n st x)) @ pendingMessages (stream_step resume maxR prev n st x) =
     batched (sent st) @ pendingMessages st @
       (if \<not> skipped resume x \<and> has_pdf x \<and> length_below (length (messages st)) maxR
        then [pdfMsg x] else [])"
  by (auto simp: stream_step_def Let_def skipped_def has_pdf_def)

lemma stream_fold_totals:
  "totalEmailsScanned (foldl (stream_step resume maxR prev n) st msgs) =
     increments (length (filter (\<lambda>m. \<not> skipped resume m) msgs)) (totalEmailsScanned st)"
  "totalWithPdf (foldl (stream_step resume maxR prev n) st msgs) =
     increments (length (filter has_pdf (filter (\<lambda>m. \<not> skipped resume m) msgs))) (totalWithPdf st)"
  by (induction msgs arbitrary: st) (simp_all add: stream_step_fields)

lemma stream_fold_messages:
  assumes cap: "\<And>n. length_below n maxR \<longleftrightarrow> n < k"
  shows "messages (foldl (stream_step resume maxR prev n) st msgs) =
     messages st @ take (k - length (messages st))
       (map pdfMsg (filter has_pdf (filter (\<lambda>m. \<not> skipped resume m) msgs)))"
proof (induction msgs arbitrary: st)
  case Nil
  show ?case by simp
next
  case (Cons x xs)
  show ?case
    by (simp add: Cons.IH stream_step_fields cap take_cap_step)
qed

lemma stream_fold_messages_subset:
  "set (messages (foldl (stream_step resume maxR prev n) st msgs)) \<subseteq>
     set (messages st) \<union> pdfMsg ` {m \<in> set msgs. \<not> skipped resume m}"
proof (induction msgs arbitrary: st)
  case Nil
  show ?case by simp
next
  case (Cons x xs)
  have "set (messages (stream_step resume maxR prev n st x)) \<subseteq>
          set (messages st) \<union> pdfMsg ` {m \<in> set (x # xs). \<not> skipped resume m}"
    by (auto simp: stream_step_fields)
  with Cons.IH [of "stream_step resume maxR prev n st x"] show ?case
    by auto
qed

lemma stream_fold_batched:
  "batched (sent st) @ pendingMessages st = messages st \<Longrightarrow>
   batched (sent (foldl (stream_step resume maxR prev n) st msgs)) @
     pendingMessages (foldl (stream_step resume maxR prev n) st msgs) =
   messages (foldl (stream_step resume maxR prev n) st msgs)"
proof (induction msgs arbitrary: st)
  case Nil
  then show ?case by simp
next
  case (Cons x xs)
  have "batched (sent (stream_step resume maxR prev n st x)) @
          pendingMessages (stream_step resume maxR prev n st x) =
        messages (stream_step resume maxR prev n st x)"
    using Cons.prems by (simp add: stream_step_fields)
  from Cons.IH [OF this] show ?case by simp
qed

subsection \<open>The handlers\<close>

lemma search_handler_ok:
  assumes "search_handler createClient now req = Search_ok r"
  shows "r_messages r = s_messages (foldl (search_step (withDefault (maxResults req) (Finite 5000)))
            \<lparr> s_messages = [], s_totalEmailsScanned = 0, s_totalWithPdf = 0 \<rparr>
            (search_fetched createClient now req))"
    and "r_totalEmailsScanned r = s_totalEmailsScanned (foldl (search_step (withDefault (maxResults req) (Finite 5000)))
            \<lparr> s_messages = [], s_totalEmailsScanned = 0, s_totalWithPdf = 0 \<rparr>
            (search_fetched createClient now req))"
    and "r_totalWithPdf r = s_totalWithPdf (foldl (search_step (withDefault (maxResults req) (Finite 5000)))
            \<lparr> s_messages = [], s_totalEmailsScanned = 0, s_totalWithPdf = 0 \<rparr>
            (search_fetched createClient now req))"
    and "r_daysBack r = effectiveDaysBack (withDefault (daysBack req) (Num 365))"
  using assms
  by (auto simp: search_handler_def Let_def search_batches_eq scan_uids_def search_fetched_def
      split: if_splits option.splits sum.splits prod.splits)

lemma stream_loop_state_fetched:
  "stream_loop_state (client_of createClient req) now req n =
     foldl (stream_step (resumeAfterUid req) (withDefault (maxResults req) (Finite 5000))
              (previousScanned req)
              (length (scan_uids (client_of createClient req) (stream_criteria now req))))
       (stream_init req [start_of n req])
       (stream_fetched createClient now req)"
  by (simp add: stream_loop_state_def stream_fetched_def)

lemma search_stream_cases:
  fixes createClient now req
  defines "c \<equiv> client_of createClient req"
  assumes "search_stream createClient now req = Stream evs"
  shows "(\<exists>e. evs = [error_event e]) \<or>
         (\<exists>n e. evs = [start_of n req, error_event e]) \<or>
         (\<exists>n e. evs = sent (stream_loop_state c now req n) @ [error_event e]) \<or>
         (\<exists>n e. evs = sent (flush_pending (stream_loop_state c now req n)) @ [error_event e]) \<or>
         (\<exists>n. evs = sent (flush_pending (stream_loop_state c now req n)) @
            [Complete \<lparr> ce_totalEmailsScanned = totalEmailsScanned (stream_loop_state c now req n),
                         ce_totalWithPdf = totalWithPdf (stream_loop_state c now req n),
                         ce_daysBack = effectiveDaysBack (withDefault (daysBack req) (Num 365)),
                         ce_lastUid = lastProcessedUid (stream_loop_state c now req n) \<rparr>])"
  using assms(2)
  unfolding search_stream_def stream_loop_state_def Let_def stream_batches_eq scan_uids_def c_def
  by (auto simp: flush_pending_def split: if_splits option.splits sum.splits prod.splits)

lemma stream_step_scan_events:
  "\<forall>e \<in> set (sent st). scan_event e \<Longrightarrow>
   \<forall>e \<in> set (sent (stream_step resume maxR prev n st x)). scan_event e"
  by (auto simp: stream_step_def Let_def push_pdf_def send_progress_def sendEvent_def)

lemma stream_fold_scan_events:
  "\<forall>e \<in> set (sent st). scan_event e \<Longrightarrow>
   \<forall>e \<in> set (sent (foldl (stream_step resume maxR prev n) st msgs)). scan_event e"
proof (induction msgs arbitrary: st)
  case Nil
  then show ?case by simp
next
  case (Cons x xs)
  from Cons.IH [OF stream_step_scan_events [OF Cons.prems]] show ?case by simp
qed

lemma stream_loop_state_props:
  fixes createClient now req n
  defines "st \<equiv> stream_loop_state (client_of createClient req) now req n"
    and "S \<equiv> filter (\<lambda>x. \<not> skipped (resumeAfterUid req) x) (stream_fetched createClient now req)"
  shows "set (messages st) \<subseteq> pdfMsg ` set S"
    and "totalEmailsScanned st = increments (length S) (previousScanned req)"
    and "totalWithPdf st = increments (length (filter has_pdf S)) (previousWithPdf req)"
    and "batched (sent st) @ pendingMessages st = messages st"
    and "batched (sent (flush_pending st)) = messages st"
    and "\<forall>e \<in> set (sent st). scan_event e"
    and "\<forall>e \<in> set (sent (flush_pending st)). scan_event e"
proof -
  show "set (messages st) \<subseteq> pdfMsg ` set S"
    unfolding st_def S_def stream_loop_state_fetched
    using stream_fold_messages_subset
      [of "resumeAfterUid req" "withDefault (maxResults req) (Finite 5000)" "previousScanned req"
          "length (scan_uids (client_of createClient req) (stream_criteria now req))"
          "stream_init req [start_of n req]" "stream_fetched createClient now req"]
    by (auto simp: stream_init_def)
  show "totalEmailsScanned st = increments (length S) (previousScanned req)"
    unfolding st_def S_def stream_loop_state_fetched
    by (simp add: stream_fold_totals stream_init_def)
  show "totalWithPdf st = increments (length (filter has_pdf S)) (previousWithPdf req)"
    unfolding st_def S_def stream_loop_state_fetched
    by (simp add: stream_fold_totals stream_init_def)
  show b: "batched (sent st) @ pendingMessages st = messages st"
    unfolding st_def stream_loop_state_def
    by (rule stream_fold_batched) (simp add: stream_init_def start_of_def)
  then show "batched (sent (flush_pending st)) = messages st"
    by (auto simp: flush_pending_def)
  show e: "\<forall>e \<in> set (sent st). scan_event e"
    unfolding st_def stream_loop_state_def
    by (rule stream_fold_scan_events) (simp add: stream_init_def start_of_def)
  then show "\<forall>e \<in> set (sent (flush_pending st)). scan_event e"
    by (auto simp: flush_pending_def)
qed

lemma stream_loop_state_messages:
  assumes cap: "\<And>n. length_below n (withDefault (maxResults req) (Finite 5000)) \<longleftrightarrow> n < k"
  shows "messages (stream_loop_state (client_of createClient req) now req n) =
     take k (map pdfMsg (filter has_pdf
       (filter (\<lambda>x. \<not> skipped (resumeAfterUid req) x) (stream_fetched createClient now req))))"
  unfolding stream_loop_state_fetched
  by (simp add: stream_fold_messages [OF cap] stream_init_def)

lemma search_stream_complete_event:
  assumes "search_stream createClient now req = Stream evs" and "Complete ce \<in> set evs"
  shows "\<exists>n. evs = sent (flush_pending (stream_loop_state (client_of createClient req) now req n)) @ [Complete ce] \<and>
     ce = \<lparr> ce_totalEmailsScanned = totalEmailsScanned (stream_loop_state (client_of createClient req) now req n),
            ce_totalWithPdf = totalWithPdf (stream_loop_state (client_of createClient req) now req n),
            ce_daysBack = effectiveDaysBack (withDefault (daysBack req) (Num 365)),
            ce_lastUid = lastProcessedUid (stream_loop_state (client_of createClient req) now req n) \<rparr>"
  using search_stream_cases [OF assms(1)] assms(2)
    stream_loop_state_props(6,7) [of createClient req now]
  by (fastforce simp: error_event_def start_of_def)

lemma search_stream_progress_event:
  assumes "search_stream createClient now req = Stream evs" and "Progress pe \<in> set evs"
  shows "\<exists>n. Progress pe \<in> set (sent (stream_loop_state (client_of createClient req) now req n))"
  using search_stream_cases [OF assms(1)] assms(2)
  by (auto simp: error_event_def start_of_def flush_pending_def sendEvent_def split: if_splits)

lemma search_stream_batched:
  assumes "search_stream createClient now req = Stream evs" and "x \<in> set (batched evs)"
  shows "\<exists>n. x \<in> set (messages (stream_loop_state (client_of createClient req) now req n))"
proof -
  have sub: "x \<in> set (batched (sent (stream_loop_state (client_of createClient req) now req n))) \<Longrightarrow>
             x \<in> set (messages (stream_loop_state (client_of createClient req) now req n))" for n
    using arg_cong [OF stream_loop_state_props(4) [of createClient req now n], of set] by auto
  from search_stream_cases [OF assms(1)] assms(2) show ?thesis
    using stream_loop_state_props(5) [of createClient req now]
    by (auto simp: error_event_def start_of_def) (blast dest: sub)
qed

lemma search_stream_batched_length:
  assumes "search_stream createClient now req = Stream evs"
  shows "\<exists>n. length (batched evs) \<le>
            length (messages (stream_loop_state (client_of createClient req) now req n))"
proof -
  have pre: "length (batched (sent (stream_loop_state (client_of createClient req) now req n))) \<le>
             length (messages (stream_loop_state (client_of createClient req) now req n))" for n
    using arg_cong [OF stream_loop_state_props(4) [of createClient req now n], of length] by simp
  from search_stream_cases [OF assms] show ?thesis
    using pre stream_loop_state_props(5) [of createClient req now]
    by (auto simp: error_event_def start_of_def intro: exI [of _ 0]) (metis order_refl)+
qed

subsection \<open>The mailbox of the scenario\<close>

lemma fetched_map:
  "fetch c = (\<lambda>uids. (map f uids, None)) \<Longrightarrow> fetched c allUids i = map f (drop i allUids)"
proof (induction c allUids i rule: fetched.induct)
  case (1 c allUids i)
  show ?case
  proof (cases "i < length allUids \<and> batch_slice allUids i \<noteq> []")
    case True
    then have "fetched c allUids (i + FETCH_BATCH_SIZE) = map f (drop (i + FETCH_BATCH_SIZE) allUids)"
      using "1.IH" [of "map f (batch_slice allUids i)" None] "1.prems" by simp
    moreover have "batch_slice allUids i @ drop (i + FETCH_BATCH_SIZE) allUids = drop i allUids"
      unfolding batch_slice_def
      by (metis add.commute append_take_drop_id drop_drop)
    ultimately show ?thesis
      using True "1.prems"
      by (subst fetched.simps) (simp flip: map_append)
  next
    case False
    then show ?thesis
      by (subst fetched.simps) (auto simp: batch_slice_def FETCH_BATCH_SIZE_def)
  qed
qed

lemma fetch_error_None:
  "fetch c = (\<lambda>uids. (map f uids, None)) \<Longrightarrow> fetch_error c allUids i = None"
proof (induction c allUids i rule: fetch_error.induct)
  case (1 c allUids i)
  then show ?case
    by (subst fetch_error.simps) simp
qed

lemma has_pdf_scenario_message: "has_pdf (scenario_message u) = (u mod 20 = 0)"
  by (simp add: has_pdf_def scenario_message_def client_trees walk_eval)

lemma uid_scenario_message: "uid (scenario_message u) = u"
  by (simp add: scenario_message_def)

lemma scan_uids_mailbox120: "scan_uids mailbox120 crit = rev [1..120]"
  by (simp add: scan_uids_def mailbox120_def sort_desc_def sorted_sort_id)

lemma count120:
  "length (filter (\<lambda>u. u mod 20 = 0) [1..120]) = 6"
  "length (filter (\<lambda>u. u < 61) [1..120]) = 60"
  "length (filter (\<lambda>u. u < 61 \<and> u mod 20 = 0) [1..120]) = 3"
  "length (filter (\<lambda>u. 0 \<le> u) [1..120]) = 120"
  by code_simp+

lemma fetch_mailbox120: "fetch mailbox120 = (\<lambda>uids. (map scenario_message uids, None))"
  by (simp add: mailbox120_def)

lemma client_of_mailbox120: "client_of (\<lambda>e p. mailbox120) req = mailbox120"
  by (simp add: client_of_def)

lemma fetched_mailbox120:
  "search_fetched (\<lambda>e p. mailbox120) now req = map scenario_message (rev [1..120])"
  "stream_fetched (\<lambda>e p. mailbox120) now sreq = map scenario_message (rev [1..120])"
  using fetched_map [OF fetch_mailbox120, of "rev [1..120]" 0]
  by (simp_all add: search_fetched_def stream_fetched_def client_of_mailbox120 scan_uids_mailbox120)

lemma scenario_count:
  "length (filter (\<lambda>x. P (uid x) \<and> has_pdf x) (map scenario_message (rev [1..120]))) =
     length (filter (\<lambda>u. P u \<and> u mod 20 = 0) [1..120])"
  "length (filter (\<lambda>x. P (uid x)) (map scenario_message (rev [1..120]))) =
     length (filter P [1..120])"
proof -
  have "length (filter (\<lambda>x. P (uid x) \<and> has_pdf x) (map scenario_message (rev [1..120]))) =
        length (filter (\<lambda>u. P u \<and> u mod 20 = 0) (rev [1..120]))"
    by (simp add: filter_map o_def has_pdf_scenario_message uid_scenario_message)
  also have "\<dots> = length (filter (\<lambda>u. P u \<and> u mod 20 = 0) [1..120])"
    by (simp flip: rev_filter)
  finally show "length (filter (\<lambda>x. P (uid x) \<and> has_pdf x) (map scenario_message (rev [1..120]))) =
     length (filter (\<lambda>u. P u \<and> u mod 20 = 0) [1..120])" .
  have "length (filter (\<lambda>x. P (uid x)) (map scenario_message (rev [1..120]))) =
        length (filter P (rev [1..120]))"
    by (simp add: filter_map o_def uid_scenario_message)
  also have "\<dots> = length (filter P [1..120])"
    by (simp flip: rev_filter)
  finally show "length (filter (\<lambda>x. P (uid x)) (map scenario_message (rev [1..120]))) =
     length (filter P [1..120])" .
qed

lemma scenario_counts:
  assumes "F = map scenario_message (rev [1..120])"
  shows "length F = 120"
    and "length (filter has_pdf F) = 6"
    and "length (filter (\<lambda>x. uid x < 61) F) = 60"
    and "length (filter (\<lambda>x. uid x < 61 \<and> has_pdf x) F) = 3"
    and "length (filter (\<lambda>x. 0 \<le> uid x) F) = 120"
  unfolding assms
  using scenario_count(1) [of "\<lambda>u. True"] scenario_count(1) [of "\<lambda>u. u < 61"]
    scenario_count(2) [of "\<lambda>u. u < 61"] scenario_count(2) [of "\<lambda>u. 0 \<le> u"]
  by (simp_all add: count120)

lemmas mailbox120_counts =
  scenario_counts [OF fetched_mailbox120(1)] scenario_counts [OF fetched_mailbox120(2)]

lemma mailbox120_fields:
  "connect mailbox120 = None" "status_messages mailbox120 = Inr 120"
  "mailboxOpen mailbox120 = None" "search mailbox120 crit = Inr (Some [1..120])"
  "logout mailbox120 = None"
  by (simp_all add: mailbox120_def)

lemma search_handler_mailbox120:
  "credentials_present (email req) (password req) \<Longrightarrow>
   \<exists>r. search_handler (\<lambda>e p. mailbox120) now req = Search_ok r"
  by (simp add: search_handler_def Let_def search_batches_eq mailbox120_fields client_of_mailbox120
      fetch_error_None [OF fetch_mailbox120])

lemma search_stream_mailbox120:
  "credentials_present (email req) (password req) \<Longrightarrow>
   \<exists>evs ce. search_stream (\<lambda>e p. mailbox120) now req = Stream evs \<and> Complete ce \<in> set evs"
  by (simp add: search_stream_def Let_def stream_batches_eq mailbox120_fields client_of_mailbox120
      fetch_error_None [OF fetch_mailbox120])
    blast

lemma scenario_requests_present:
  "credentials_present (email cap5_request) (password cap5_request)"
  "credentials_present (email cap5_stream_request) (password cap5_stream_request)"
  "credentials_present (email fractional_cap_request) (password fractional_cap_request)"
  "credentials_present (email large_count_request) (password large_count_request)"
  "credentials_present (email resume_request) (password resume_request)"
  "credentials_present (email resume_zero_request) (password resume_zero_request)"
  "credentials_present (email negative_cap_request) (password negative_cap_request)"
  by (simp_all add: credentials_present_def cap5_request_def cap5_stream_request_def
      fractional_cap_request_def large_count_request_def resume_request_def
      resume_zero_request_def negative_cap_request_def)

subsection \<open>The result cap\<close>

text \<open>
  C4, as stated, fails. With \<open>maxResults = 2.5\<close> the scan of the scenario's mailbox
  returns three messages, more than the cap: the test \<open>messages.length < maxResults\<close>
  still holds at length 2. With \<open>maxResults = -1\<close> it returns no message, and 0 is
  more than the cap. And a stream that continues from a previous count of \<open>2^53\<close>
  fetches the 120 messages, skips none, and reports \<open>2^53\<close> again:
  \<open>totalEmailsScanned++\<close> leaves the counter where it is.
\<close>

theorem fractional_cap_and_lost_count:
  "(\<exists>r. search_handler (\<lambda>e p. mailbox120) 20000 fractional_cap_request = Search_ok r \<and>
        maxResults fractional_cap_request = Some (Finite (5 / 2)) \<and>
        length (r_messages r) = 3 \<and> \<not> real (length (r_messages r)) \<le> 5 / 2) \<and>
   (\<exists>r. search_handler (\<lambda>e p. mailbox120) 20000 negative_cap_request = Search_ok r \<and>
        maxResults negative_cap_request = Some (Finite (- 1)) \<and>
        length (r_messages r) = 0 \<and> \<not> real (length (r_messages r)) \<le> - 1) \<and>
   (\<exists>evs ce. search_stream (\<lambda>e p. mailbox120) 20000 large_count_request = Stream evs \<and>
        Complete ce \<in> set evs \<and>
        previousScanned large_count_request = 2 ^ 53 \<and>
        length (filter (\<lambda>x. \<not> skipped (resumeAfterUid large_count_request) x)
                  (stream_fetched (\<lambda>e p. mailbox120) 20000 large_count_request)) = 120 \<and>
        ce_totalEmailsScanned ce = 2 ^ 53)"
proof (intro conjI)
  obtain r where r: "search_handler (\<lambda>e p. mailbox120) 20000 fractional_cap_request = Search_ok r"
    using search_handler_mailbox120 [OF scenario_requests_present(3)] by blast
  have cap: "length_below n (withDefault (maxResults fractional_cap_request) (Finite 5000)) \<longleftrightarrow> n < 3"
    for n
    by (simp add: fractional_cap_request_def length_below_Finite)
  have "r_messages r = take 3 (map pdfMsg (filter has_pdf
      (search_fetched (\<lambda>e p. mailbox120) 20000 fractional_cap_request)))"
    using search_handler_ok(1) [OF r]
    by (simp add: search_fold_messages [OF cap])
  then have "length (r_messages r) = 3"
    by (simp add: mailbox120_counts)
  with r show "\<exists>r. search_handler (\<lambda>e p. mailbox120) 20000 fractional_cap_request = Search_ok r \<and>
        maxResults fractional_cap_request = Some (Finite (5 / 2)) \<and>
        length (r_messages r) = 3 \<and> \<not> real (length (r_messages r)) \<le> 5 / 2"
    by (auto simp: fractional_cap_request_def)
next
  obtain r where r: "search_handler (\<lambda>e p. mailbox120) 20000 negative_cap_request = Search_ok r"
    using search_handler_mailbox120 [OF scenario_requests_present(7)] by blast
  have cap: "length_below n (withDefault (maxResults negative_cap_request) (Finite 5000)) \<longleftrightarrow> n < 0"
    for n
    by (simp add: negative_cap_request_def length_below_Finite)
  have "r_messages r = take 0 (map pdfMsg (filter has_pdf
      (search_fetched (\<lambda>e p. mailbox120) 20000 negative_cap_request)))"
    using search_handler_ok(1) [OF r]
    by (simp add: search_fold_messages [OF cap])
  then have "length (r_messages r) = 0"
    by simp
  with r show "\<exists>r. search_handler (\<lambda>e p. mailbox120) 20000 negative_cap_request = Search_ok r \<and>
        maxResults negative_cap_request = Some (Finite (- 1)) \<and>
        length (r_messages r) = 0 \<and> \<not> real (length (r_messages r)) \<le> - 1"
    by (auto simp: negative_cap_request_def)
next
  obtain evs ce where evs: "search_stream (\<lambda>e p. mailbox120) 20000 large_count_request = Stream evs"
    and ce: "Complete ce \<in> set evs"
    using search_stream_mailbox120 [OF scenario_requests_present(4)] by blast
  have f: "resumeAfterUid large_count_request = Null" "previousScanned large_count_request = 2 ^ 53"
    by (simp_all add: large_count_request_def)
  from search_stream_complete_event [OF evs ce] obtain n where
    "ce_totalEmailsScanned ce =
       totalEmailsScanned (stream_loop_state (client_of (\<lambda>e p. mailbox120) large_count_request)
         20000 large_count_request n)"
    by auto
  then have "ce_totalEmailsScanned ce = 2 ^ 53"
    by (simp add: stream_loop_state_props(2) f increments_lost)
  moreover have "length (filter (\<lambda>x. \<not> skipped (resumeAfterUid large_count_request) x)
                  (stream_fetched (\<lambda>e p. mailbox120) 20000 large_count_request)) = 120"
    by (simp add: f skipped_def mailbox120_counts)
  ultimately show "\<exists>evs ce. search_stream (\<lambda>e p. mailbox120) 20000 large_count_request = Stream evs \<and>
        Complete ce \<in> set evs \<and>
        previousScanned large_count_request = 2 ^ 53 \<and>
        length (filter (\<lambda>x. \<not> skipped (resumeAfterUid large_count_request) x)
                  (stream_fetched (\<lambda>e p. mailbox120) 20000 large_count_request)) = 120 \<and>
        ce_totalEmailsScanned ce = 2 ^ 53"
    using evs ce f by blast
qed

text \<open>
  C4, amended. With \<open>maxResults\<close> a whole number \<open>m \<ge> 0\<close>, a \<open>/search\<close> result
  holds at most \<open>m\<close> messages: the first \<open>m\<close> PDF-bearing messages in the order they
  were fetched. \<open>totalEmailsScanned\<close> is incremented once for every fetched message and
  \<open>totalWithPdf\<close> once for every PDF-bearing one, whatever the cap, and these are the
  numbers of such messages as long as fewer than \<open>2^53\<close> are fetched. In
  \<open>/search-stream\<close> the \<open>pdf_batch\<close> events together hold at most \<open>m\<close> messages,
  and a \<open>complete\<close> event carries the previous counts incremented once for every
  message that was not skipped, and once for every PDF-bearing one of them: the sums,
  as long as those stay below \<open>2^53\<close>. The witness is the scenario: 120 messages, 6
  with a PDF, \<open>m = 5\<close> give 5, 6 and 120.
\<close>

theorem result_cap:
  assumes "0 \<le> m" and "maxResults req = Some (Finite (real_of_int m))"
    and "maxResults sreq = Some (Finite (real_of_int m))"
  shows
    "(\<forall>r. search_handler createClient now req = Search_ok r \<longrightarrow>
        int (length (r_messages r)) \<le> m \<and>
        r_messages r = take (nat m) (map pdfMsg (filter has_pdf (search_fetched createClient now req))) \<and>
        r_totalEmailsScanned r = increments (length (search_fetched createClient now req)) 0 \<and>
        r_totalWithPdf r =
          increments (length (filter has_pdf (search_fetched createClient now req))) 0 \<and>
        (int (length (search_fetched createClient now req)) < 2 ^ 53 \<longrightarrow>
           r_totalEmailsScanned r = int (length (search_fetched createClient now req)) \<and>
           r_totalWithPdf r = int (length (filter has_pdf (search_fetched createClient now req))))) \<and>
     (\<forall>evs. search_stream createClient now sreq = Stream evs \<longrightarrow>
        int (length (batched evs)) \<le> m \<and>
        (\<forall>ce. Complete ce \<in> set evs \<longrightarrow>
           batched evs = take (nat m) (map pdfMsg (filter has_pdf
              (filter (\<lambda>x. \<not> skipped (resumeAfterUid sreq) x) (stream_fetched createClient now sreq)))) \<and>
           ce_totalEmailsScanned ce =
              increments (length (filter (\<lambda>x. \<not> skipped (resumeAfterUid sreq) x)
                 (stream_fetched createClient now sreq))) (previousScanned sreq) \<and>
           ce_totalWithPdf ce =
              increments (length (filter has_pdf (filter (\<lambda>x. \<not> skipped (resumeAfterUid sreq) x)
                 (stream_fetched createClient now sreq)))) (previousWithPdf sreq) \<and>
           (- (2 ^ 53) \<le> previousScanned sreq \<and>
            previousScanned sreq + int (length (filter (\<lambda>x. \<not> skipped (resumeAfterUid sreq) x)
                 (stream_fetched createClient now sreq))) < 2 ^ 53 \<longrightarrow>
              ce_totalEmailsScanned ce = previousScanned sreq +
                int (length (filter (\<lambda>x. \<not> skipped (resumeAfterUid sreq) x)
                   (stream_fetched createClient now sreq)))) \<and>
           (- (2 ^ 53) \<le> previousWithPdf sreq \<and>
            previousWithPdf sreq + int (length (filter has_pdf (filter (\<lambda>x. \<not> skipped (resumeAfterUid sreq) x)
                 (stream_fetched createClient now sreq)))) < 2 ^ 53 \<longrightarrow>
              ce_totalWithPdf ce = previousWithPdf sreq +
                int (length (filter has_pdf (filter (\<lambda>x. \<not> skipped (resumeAfterUid sreq) x)
                   (stream_fetched createClient now sreq)))))))"
proof -
  define F where "F = search_fetched createClient now req"
  define S where "S = filter (\<lambda>x. \<not> skipped (resumeAfterUid sreq) x) (stream_fetched createClient now sreq)"
  have cap: "length_below n (withDefault (maxResults req) (Finite 5000)) \<longleftrightarrow> n < nat m"
    "length_below n (withDefault (maxResults sreq) (Finite 5000)) \<longleftrightarrow> n < nat m" for n
    using assms by (simp_all add: length_below_Finite)
  have search: "int (length (r_messages r)) \<le> m \<and>
        r_messages r = take (nat m) (map pdfMsg (filter has_pdf F)) \<and>
        r_totalEmailsScanned r = increments (length F) 0 \<and>
        r_totalWithPdf r = increments (length (filter has_pdf F)) 0 \<and>
        (int (length F) < 2 ^ 53 \<longrightarrow>
           r_totalEmailsScanned r = int (length F) \<and>
           r_totalWithPdf r = int (length (filter has_pdf F)))"
    if ok: "search_handler createClient now req = Search_ok r" for r
  proof -
    have msgs: "r_messages r = take (nat m) (map pdfMsg (filter has_pdf F))"
      using search_handler_ok(1) [OF ok] by (simp add: search_fold_messages [OF cap(1)] F_def)
    then have len: "int (length (r_messages r)) \<le> m"
      using assms(1) by simp
    have tot: "r_totalEmailsScanned r = increments (length F) 0"
      using search_handler_ok(2) [OF ok] by (simp add: search_fold_totals F_def)
    have pdf: "r_totalWithPdf r = increments (length (filter has_pdf F)) 0"
      using search_handler_ok(3) [OF ok] by (simp add: search_fold_totals F_def)
    have exact: "r_totalEmailsScanned r = int (length F) \<and>
           r_totalWithPdf r = int (length (filter has_pdf F))"
      if small: "int (length F) < 2 ^ 53"
    proof -
      have "int (length (filter has_pdf F)) \<le> int (length F)"
        by simp
      with small have "int (length (filter has_pdf F)) < 2 ^ 53"
        by linarith
      with small tot pdf show ?thesis
        by (simp add: increments_exact)
    qed
    from msgs len tot pdf exact show ?thesis by blast
  qed
  have stream_len: "int (length (batched evs)) \<le> m"
    if ok: "search_stream createClient now sreq = Stream evs" for evs
  proof -
    from search_stream_batched_length [OF ok] obtain n where
      "length (batched evs) \<le> length (messages (stream_loop_state (client_of createClient sreq) now sreq n))"
      by blast
    also have "\<dots> \<le> nat m"
      by (simp add: stream_loop_state_messages [OF cap(2)])
    finally show ?thesis using assms(1) by simp
  qed
  have stream: "batched evs = take (nat m) (map pdfMsg (filter has_pdf S)) \<and>
           ce_totalEmailsScanned ce = increments (length S) (previousScanned sreq) \<and>
           ce_totalWithPdf ce = increments (length (filter has_pdf S)) (previousWithPdf sreq) \<and>
           (- (2 ^ 53) \<le> previousScanned sreq \<and> previousScanned sreq + int (length S) < 2 ^ 53 \<longrightarrow>
              ce_totalEmailsScanned ce = previousScanned sreq + int (length S)) \<and>
           (- (2 ^ 53) \<le> previousWithPdf sreq \<and>
            previousWithPdf sreq + int (length (filter has_pdf S)) < 2 ^ 53 \<longrightarrow>
              ce_totalWithPdf ce = previousWithPdf sreq + int (length (filter has_pdf S)))"
    if ok: "search_stream createClient now sreq = Stream evs" and ce: "Complete ce \<in> set evs"
    for evs ce
  proof -
    note P = stream_loop_state_props [of createClient sreq now]
    from search_stream_complete_event [OF ok ce] obtain n where
      evs: "evs = sent (flush_pending (stream_loop_state (client_of createClient sreq) now sreq n)) @ [Complete ce]"
      and ce_eq: "ce = \<lparr> ce_totalEmailsScanned = totalEmailsScanned (stream_loop_state (client_of createClient sreq) now sreq n),
            ce_totalWithPdf = totalWithPdf (stream_loop_state (client_of createClient sreq) now sreq n),
            ce_daysBack = effectiveDaysBack (withDefault (daysBack sreq) (Num 365)),
            ce_lastUid = lastProcessedUid (stream_loop_state (client_of createClient sreq) now sreq n) \<rparr>"
      by blast
    have b: "batched evs = take (nat m) (map pdfMsg (filter has_pdf S))"
      unfolding evs S_def
      by (simp add: P(5) stream_loop_state_messages [OF cap(2)])
    have tot: "ce_totalEmailsScanned ce = increments (length S) (previousScanned sreq)"
      by (subst ce_eq) (simp add: P(2) S_def)
    have pdf: "ce_totalWithPdf ce = increments (length (filter has_pdf S)) (previousWithPdf sreq)"
      by (subst ce_eq) (simp add: P(3) S_def)
    from b tot pdf show ?thesis
      by (simp add: increments_exact)
  qed
  from search stream_len stream show ?thesis
    unfolding F_def S_def by blast
qed

theorem result_cap_witness:
  "(0::int) \<le> 5 \<and>
   maxResults cap5_request = Some (Finite (real_of_int 5)) \<and>
   (\<exists>r. search_handler (\<lambda>e p. mailbox120) 20000 cap5_request = Search_ok r \<and>
        length (r_messages r) = 5 \<and> r_totalWithPdf r = 6 \<and> r_totalEmailsScanned r = 120) \<and>
   (\<exists>evs ce. search_stream (\<lambda>e p. mailbox120) 20000 cap5_stream_request = Stream evs \<and>
        Complete ce \<in> set evs \<and>
        length (batched evs) = 5 \<and> ce_totalWithPdf ce = 6 \<and> ce_totalEmailsScanned ce = 120)"
proof -
  have m: "maxResults cap5_request = Some (Finite (real_of_int 5))"
    "maxResults cap5_stream_request = Some (Finite (real_of_int 5))"
    by (simp_all add: cap5_request_def cap5_stream_request_def)
  have z: "(0::int) \<le> 5" by simp
  note cap = result_cap [OF z m, of "\<lambda>e p. mailbox120" 20000]
  obtain r where r: "search_handler (\<lambda>e p. mailbox120) 20000 cap5_request = Search_ok r"
    using search_handler_mailbox120 [OF scenario_requests_present(1)] by blast
  obtain evs ce where evs: "search_stream (\<lambda>e p. mailbox120) 20000 cap5_stream_request = Stream evs"
    and ce: "Complete ce \<in> set evs"
    using search_stream_mailbox120 [OF scenario_requests_present(2)] by blast
  have f: "resumeAfterUid cap5_stream_request = Null" "previousScanned cap5_stream_request = 0"
    "previousWithPdf cap5_stream_request = 0"
    by (simp_all add: cap5_stream_request_def)
  have "length (r_messages r) = 5 \<and> r_totalWithPdf r = 6 \<and> r_totalEmailsScanned r = 120"
    using cap r by (simp add: mailbox120_counts increments_exact)
  moreover have "length (batched evs) = 5 \<and> ce_totalWithPdf ce = 6 \<and> ce_totalEmailsScanned ce = 120"
    using cap evs ce by (simp add: f skipped_def mailbox120_counts increments_exact)
  ultimately show ?thesis using r evs ce m by auto
qed

subsection \<open>The resume skip\<close>

lemma fetched_without_resumed:
  "fetched (without_resumed U c) allUids i = filter (\<lambda>x. uid x < U) (fetched c allUids i)"
proof (induction c allUids i rule: fetched.induct)
  case (1 c allUids i)
  show ?case
    apply (subst fetched.simps)
    apply (subst (2) fetched.simps)
    using 1 by (auto simp: without_resumed_def split: prod.splits option.splits)
qed

lemma fetch_error_without_resumed:
  "fetch_error (without_resumed U c) allUids i = fetch_error c allUids i"
proof (induction c allUids i rule: fetch_error.induct)
  case (1 c allUids i)
  show ?case
    apply (subst fetch_error.simps)
    apply (subst (2) fetch_error.simps)
    using 1 by (auto simp: without_resumed_def split: prod.splits option.splits)
qed

lemma without_resumed_fields [simp]:
  "connect (without_resumed U c) = connect c"
  "status_messages (without_resumed U c) = status_messages c"
  "mailboxOpen (without_resumed U c) = mailboxOpen c"
  "search (without_resumed U c) = search c"
  "logout (without_resumed U c) = logout c"
  by (simp_all add: without_resumed_def)

lemma stream_step_skipped:
  "skipped r x \<Longrightarrow>
   stream_step r maxR prev n st x = st\<lparr> skippedToResume := skippedToResume st + 1 \<rparr>"
  by (simp add: stream_step_def skipped_def)

lemma stream_step_skippedToResume:
  "stream_step r maxR prev n (st\<lparr> skippedToResume := k \<rparr>) x =
     (stream_step r maxR prev n st x)\<lparr> skippedToResume := k + (if skipped r x then 1 else 0) \<rparr>"
  by (simp add: stream_step_def skipped_def Let_def push_pdf_def send_progress_def sendEvent_def)

lemma stream_step_keeps_skippedToResume:
  "\<not> skipped r x \<Longrightarrow> skippedToResume (stream_step r maxR prev n st x) = skippedToResume st"
  by (simp add: stream_step_def skipped_def Let_def)

lemma stream_fold_skippedToResume:
  "foldl (stream_step r maxR prev n) (st\<lparr> skippedToResume := k \<rparr>) msgs =
     (foldl (stream_step r maxR prev n) st msgs)
       \<lparr> skippedToResume := k + length (filter (skipped r) msgs) \<rparr>"
proof (induction msgs arbitrary: st k)
  case Nil
  show ?case by simp
next
  case (Cons x xs)
  show ?case
    by (simp add: stream_step_skippedToResume Cons.IH)
qed

lemma stream_fold_without_skipped:
  "foldl (stream_step r maxR prev n) st msgs =
     (foldl (stream_step r maxR prev n) st (filter (\<lambda>x. \<not> skipped r x) msgs))
       \<lparr> skippedToResume := skippedToResume st + length (filter (skipped r) msgs) \<rparr>"
proof (induction msgs arbitrary: st)
  case Nil
  show ?case by simp
next
  case (Cons x xs)
  show ?case
  proof (cases "skipped r x")
    case True
    then show ?thesis
      by (simp add: stream_step_skipped stream_fold_skippedToResume)
         (subst Cons.IH, simp)
  next
    case False
    then show ?thesis
      by (simp add: stream_step_keeps_skippedToResume) (subst Cons.IH, simp add: stream_step_keeps_skippedToResume)
  qed
qed

lemma flush_pending_skippedToResume:
  "flush_pending (st\<lparr> skippedToResume := k \<rparr>) = (flush_pending st)\<lparr> skippedToResume := k \<rparr>"
  by (simp add: flush_pending_def sendEvent_def)

lemma client_of_without_resumed:
  "client_of (\<lambda>e p. without_resumed U (createClient e p)) req =
     without_resumed U (client_of createClient req)"
  by (simp add: client_of_def)

lemma search_stream_without_resumed:
  assumes "truthy (resumeAfterUid req)"
  shows "search_stream (\<lambda>e p. without_resumed (toNumber (resumeAfterUid req)) (createClient e p)) now req =
         search_stream createClient now req"
proof (cases "search (client_of createClient req) (stream_criteria now req)")
  case (Inl e)
  then show ?thesis
    by (simp add: search_stream_def Let_def client_of_without_resumed split: option.splits sum.splits)
next
  case (Inr found)
  define c where "c = client_of createClient req"
  define uids where "uids = sort_desc (case found of None \<Rightarrow> [] | Some us \<Rightarrow> us)"
  define step where "step = stream_step (resumeAfterUid req)
      (withDefault (maxResults req) (Finite 5000)) (previousScanned req) (length uids)"
  have keep: "(\<lambda>x. uid x < toNumber (resumeAfterUid req)) = (\<lambda>x. \<not> skipped (resumeAfterUid req) x)"
    using assms by (auto simp: skipped_def)
  have eq: "foldl step st (fetched c uids 0) =
      (foldl step st (filter (\<lambda>x. \<not> skipped (resumeAfterUid req) x) (fetched c uids 0)))
        \<lparr> skippedToResume := skippedToResume st +
             length (filter (skipped (resumeAfterUid req)) (fetched c uids 0)) \<rparr>" for st
    unfolding step_def by (rule stream_fold_without_skipped)
  show ?thesis
    unfolding search_stream_def Let_def client_of_without_resumed c_def [symmetric]
      stream_batches_eq fetch_error_without_resumed
      fetched_without_resumed keep without_resumed_fields Inr [folded c_def] sum.case
      uids_def [symmetric] step_def [symmetric]
    by (simp add: eq flush_pending_skippedToResume split: option.splits sum.splits)
qed

lemma batched_mem: "Pdf_batch ms n \<in> set evs \<Longrightarrow> set ms \<subseteq> set (batched evs)"
  by (induction evs rule: batched.induct) auto

lemma stream_step_progress:
  "Progress pe \<in> set (sent (stream_step r maxR prev n st x)) \<Longrightarrow>
   Progress pe \<in> set (sent st) \<or>
   (\<not> skipped r x \<and> pe_scanned pe = totalEmailsScanned (stream_step r maxR prev n st x))"
  by (auto simp: stream_step_def Let_def push_pdf_def send_progress_def sendEvent_def skipped_def
      split: if_splits)

lemma stream_fold_progress:
  "Progress pe \<in> set (sent (foldl (stream_step r maxR prev n) st msgs)) \<Longrightarrow>
   Progress pe \<in> set (sent st) \<or>
   (\<exists>j. pe_scanned pe =
      increments (length (filter (\<lambda>x. \<not> skipped r x) (take j msgs))) (totalEmailsScanned st))"
proof (induction msgs rule: rev_induct)
  case Nil
  then show ?case by simp
next
  case (snoc x xs)
  from snoc.prems
  have "Progress pe \<in> set (sent (stream_step r maxR prev n (foldl (stream_step r maxR prev n) st xs) x))"
    by simp
  from stream_step_progress [OF this] show ?case
  proof
    assume "Progress pe \<in> set (sent (foldl (stream_step r maxR prev n) st xs))"
    from snoc.IH [OF this] show ?thesis
    proof
      assume "Progress pe \<in> set (sent st)"
      then show ?thesis by simp
    next
      assume "\<exists>j. pe_scanned pe =
        increments (length (filter (\<lambda>x. \<not> skipped r x) (take j xs))) (totalEmailsScanned st)"
      then obtain j where j: "pe_scanned pe =
        increments (length (filter (\<lambda>x. \<not> skipped r x) (take j xs))) (totalEmailsScanned st)" by blast
      have "take (min j (length xs)) (xs @ [x]) = take j xs"
        by (cases "j \<le> length xs") (simp_all add: min_def)
      with j have "pe_scanned pe =
          increments (length (filter (\<lambda>x. \<not> skipped r x) (take (min j (length xs)) (xs @ [x]))))
            (totalEmailsScanned st)"
        by simp
      then show ?thesis by blast
    qed
  next
    assume a: "\<not> skipped r x \<and> pe_scanned pe =
      totalEmailsScanned (stream_step r maxR prev n (foldl (stream_step r maxR prev n) st xs) x)"
    have "foldl (stream_step r maxR prev n) st (xs @ [x]) =
          stream_step r maxR prev n (foldl (stream_step r maxR prev n) st xs) x"
      by simp
    with a have "pe_scanned pe = totalEmailsScanned (foldl (stream_step r maxR prev n) st (xs @ [x]))"
      by simp
    also have "\<dots> = increments (length (filter (\<lambda>x. \<not> skipped r x) (take (length (xs @ [x])) (xs @ [x]))))
                      (totalEmailsScanned st)"
      unfolding stream_fold_totals by simp
    finally show ?thesis by blast
  qed
qed

text \<open>
  C5, as stated, fails at \<open>U = 0\<close>: \<open>resumeAfterUid && \<dots>\<close> is false for 0, so
  nothing is skipped. In the scenario's mailbox all 120 fetched messages have a UID of
  0 or more, and the scan counts all 120 and streams the 6 that carry a PDF.
\<close>

theorem resume_zero_skips_nothing:
  "resumeAfterUid resume_zero_request = Num 0 \<and>
   length (filter (\<lambda>x. 0 \<le> uid x) (stream_fetched (\<lambda>e p. mailbox120) 20000 resume_zero_request)) = 120 \<and>
   (\<exists>evs ce. search_stream (\<lambda>e p. mailbox120) 20000 resume_zero_request = Stream evs \<and>
      Complete ce \<in> set evs \<and> ce_totalEmailsScanned ce = 120 \<and> ce_totalWithPdf ce = 6 \<and>
      length (batched evs) = 6)"
proof -
  obtain evs ce where evs: "search_stream (\<lambda>e p. mailbox120) 20000 resume_zero_request = Stream evs"
    and ce: "Complete ce \<in> set evs"
    using search_stream_mailbox120 [OF scenario_requests_present(6)] by blast
  have f: "resumeAfterUid resume_zero_request = Num 0" "previousScanned resume_zero_request = 0"
    "previousWithPdf resume_zero_request = 0" "maxResults resume_zero_request = None"
    by (simp_all add: resume_zero_request_def)
  have cap: "length_below n (withDefault (maxResults resume_zero_request) (Finite 5000)) \<longleftrightarrow> n < 5000"
    for n
    by (simp add: f length_below_Finite)
  note P = stream_loop_state_props [of "\<lambda>e p. mailbox120" resume_zero_request 20000]
  from search_stream_complete_event [OF evs ce] obtain n where
    e: "evs = sent (flush_pending (stream_loop_state (client_of (\<lambda>e p. mailbox120) resume_zero_request)
              20000 resume_zero_request n)) @ [Complete ce]"
    and c: "ce = \<lparr> ce_totalEmailsScanned = totalEmailsScanned (stream_loop_state
                (client_of (\<lambda>e p. mailbox120) resume_zero_request) 20000 resume_zero_request n),
            ce_totalWithPdf = totalWithPdf (stream_loop_state
                (client_of (\<lambda>e p. mailbox120) resume_zero_request) 20000 resume_zero_request n),
            ce_daysBack = effectiveDaysBack (withDefault (daysBack resume_zero_request) (Num 365)),
            ce_lastUid = lastProcessedUid (stream_loop_state
                (client_of (\<lambda>e p. mailbox120) resume_zero_request) 20000 resume_zero_request n) \<rparr>"
    by blast
  have "ce_totalEmailsScanned ce = 120"
    by (subst c) (simp add: P(2) f skipped_def mailbox120_counts increments_exact)
  moreover have "ce_totalWithPdf ce = 6"
    by (subst c) (simp add: P(3) f skipped_def mailbox120_counts increments_exact)
  moreover have "length (batched evs) = 6"
    unfolding e
    by (simp add: P(5) stream_loop_state_messages [OF cap] f skipped_def mailbox120_counts)
  moreover have "length (filter (\<lambda>x. 0 \<le> uid x)
      (stream_fetched (\<lambda>e p. mailbox120) 20000 resume_zero_request)) = 120"
    by (simp add: mailbox120_counts)
  ultimately show ?thesis using evs ce f(1) by blast
qed

text \<open>
  C5, amended. In a streaming scan with \<open>resumeAfterUid\<close> set to a \<open>U\<close> that is not
  0 (and not \<open>null\<close>), a fetched message with a UID of \<open>U\<close> or more is skipped: no
  \<open>pdf_batch\<close> event holds a message with such a UID; the totals of the \<open>complete\<close>
  event are the previous counts incremented once for every fetched message with a UID
  below \<open>U\<close>, and once for every PDF-bearing one of them (the sums, as long as those
  stay below \<open>2^53\<close>); the \<open>scanned\<close> count of every \<open>progress\<close> event is the
  previous count incremented once for every message with a UID below \<open>U\<close> among the
  first \<open>j\<close> fetched ones; and the whole event sequence is the one of the scan in which
  the client never yields a message with a UID of \<open>U\<close> or more.
\<close>

theorem resume_skip:
  assumes "truthy (resumeAfterUid req)" and "search_stream createClient now req = Stream evs"
  shows
    "(\<forall>ms n x. Pdf_batch ms n \<in> set evs \<longrightarrow> x \<in> set ms \<longrightarrow>
        pm_uid x < toNumber (resumeAfterUid req)) \<and>
     (\<forall>ce. Complete ce \<in> set evs \<longrightarrow>
        ce_totalEmailsScanned ce =
          increments (length (filter (\<lambda>x. uid x < toNumber (resumeAfterUid req))
                 (stream_fetched createClient now req))) (previousScanned req) \<and>
        ce_totalWithPdf ce =
          increments (length (filter has_pdf (filter (\<lambda>x. uid x < toNumber (resumeAfterUid req))
                 (stream_fetched createClient now req)))) (previousWithPdf req) \<and>
        (- (2 ^ 53) \<le> previousScanned req \<and>
         previousScanned req + int (length (filter (\<lambda>x. uid x < toNumber (resumeAfterUid req))
                 (stream_fetched createClient now req))) < 2 ^ 53 \<longrightarrow>
           ce_totalEmailsScanned ce = previousScanned req +
             int (length (filter (\<lambda>x. uid x < toNumber (resumeAfterUid req))
                 (stream_fetched createClient now req)))) \<and>
        (- (2 ^ 53) \<le> previousWithPdf req \<and>
         previousWithPdf req + int (length (filter has_pdf (filter (\<lambda>x. uid x < toNumber (resumeAfterUid req))
                 (stream_fetched createClient now req)))) < 2 ^ 53 \<longrightarrow>
           ce_totalWithPdf ce = previousWithPdf req +
             int (length (filter has_pdf (filter (\<lambda>x. uid x < toNumber (resumeAfterUid req))
                 (stream_fetched createClient now req)))))) \<and>
     (\<forall>pe. Progress pe \<in> set evs \<longrightarrow>
        (\<exists>j. pe_scanned pe =
           increments (length (filter (\<lambda>x. uid x < toNumber (resumeAfterUid req))
                  (take j (stream_fetched createClient now req)))) (previousScanned req))) \<and>
     search_stream (\<lambda>e p. without_resumed (toNumber (resumeAfterUid req)) (createClient e p)) now req =
       Stream evs"
proof -
  define U where "U = toNumber (resumeAfterUid req)"
  define F where "F = stream_fetched createClient now req"
  define c where "c = client_of createClient req"
  have keep: "(\<lambda>x. \<not> skipped (resumeAfterUid req) x) = (\<lambda>x. uid x < U)"
    using assms(1) by (auto simp: skipped_def U_def)
  note P = stream_loop_state_props [of createClient req now, unfolded keep, folded F_def c_def]
  have batch: "pm_uid x < U" if "Pdf_batch ms n \<in> set evs" and "x \<in> set ms" for ms n x
  proof -
    from that have "x \<in> set (batched evs)" using batched_mem by blast
    from search_stream_batched [OF assms(2) this] obtain k
      where "x \<in> set (messages (stream_loop_state c now req k))" unfolding c_def by blast
    then have "x \<in> pdfMsg ` set (filter (\<lambda>x. uid x < U) F)"
      using P(1) [of k] by blast
    then show ?thesis
      by (auto simp: pdfMsg_def)
  qed
  have complete: "ce_totalEmailsScanned ce = increments (length (filter (\<lambda>x. uid x < U) F)) (previousScanned req) \<and>
        ce_totalWithPdf ce =
          increments (length (filter has_pdf (filter (\<lambda>x. uid x < U) F))) (previousWithPdf req) \<and>
        (- (2 ^ 53) \<le> previousScanned req \<and>
         previousScanned req + int (length (filter (\<lambda>x. uid x < U) F)) < 2 ^ 53 \<longrightarrow>
           ce_totalEmailsScanned ce = previousScanned req + int (length (filter (\<lambda>x. uid x < U) F))) \<and>
        (- (2 ^ 53) \<le> previousWithPdf req \<and>
         previousWithPdf req + int (length (filter has_pdf (filter (\<lambda>x. uid x < U) F))) < 2 ^ 53 \<longrightarrow>
           ce_totalWithPdf ce = previousWithPdf req +
             int (length (filter has_pdf (filter (\<lambda>x. uid x < U) F))))"
    if "Complete ce \<in> set evs" for ce
  proof -
    from search_stream_complete_event [OF assms(2) that] obtain k where
      ce: "ce = \<lparr> ce_totalEmailsScanned = totalEmailsScanned (stream_loop_state c now req k),
                  ce_totalWithPdf = totalWithPdf (stream_loop_state c now req k),
                  ce_daysBack = effectiveDaysBack (withDefault (daysBack req) (Num 365)),
                  ce_lastUid = lastProcessedUid (stream_loop_state c now req k) \<rparr>"
      unfolding c_def by blast
    have tot: "ce_totalEmailsScanned ce = increments (length (filter (\<lambda>x. uid x < U) F)) (previousScanned req)"
      by (subst ce) (simp add: P(2))
    have pdf: "ce_totalWithPdf ce =
          increments (length (filter has_pdf (filter (\<lambda>x. uid x < U) F))) (previousWithPdf req)"
      by (subst ce) (simp add: P(3))
    from tot pdf show ?thesis
      by (simp add: increments_exact)
  qed
  have progress: "\<exists>j. pe_scanned pe =
           increments (length (filter (\<lambda>x. uid x < U) (take j F))) (previousScanned req)"
    if "Progress pe \<in> set evs" for pe
  proof -
    from search_stream_progress_event [OF assms(2) that] obtain k where
      "Progress pe \<in> set (sent (stream_loop_state (client_of createClient req) now req k))" by blast
    from stream_fold_progress [OF this [unfolded stream_loop_state_fetched]]
    show ?thesis
      by (simp add: stream_init_def start_of_def keep F_def)
  qed
  have same: "search_stream (\<lambda>e p. without_resumed U (createClient e p)) now req = Stream evs"
    unfolding U_def using search_stream_without_resumed [OF assms(1)] assms(2) by simp
  from batch complete progress same show ?thesis
    unfolding U_def F_def by blast
qed

theorem resume_skip_witness:
  "truthy (Num 61) \<and>
   (\<exists>evs ce. search_stream (\<lambda>e p. mailbox120) 20000 resume_request = Stream evs \<and>
      Complete ce \<in> set evs \<and> ce_totalEmailsScanned ce = 120 \<and> ce_totalWithPdf ce = 6 \<and>
      search_stream (\<lambda>e p. without_resumed 61 mailbox120) 20000 resume_request = Stream evs)"
proof -
  have f: "resumeAfterUid resume_request = Num 61" "previousScanned resume_request = 60"
    "previousWithPdf resume_request = 3"
    by (simp_all add: resume_request_def)
  have t: "truthy (resumeAfterUid resume_request)" by (simp add: f)
  obtain evs ce where evs: "search_stream (\<lambda>e p. mailbox120) 20000 resume_request = Stream evs"
    and ce: "Complete ce \<in> set evs"
    using search_stream_mailbox120 [OF scenario_requests_present(5)] by blast
  from resume_skip [OF t evs] ce
  have "ce_totalEmailsScanned ce = 120 \<and> ce_totalWithPdf ce = 6 \<and>
        search_stream (\<lambda>e p. without_resumed 61 mailbox120) 20000 resume_request = Stream evs"
    by (simp add: f mailbox120_counts increments_exact)
  with evs ce show ?thesis by auto
qed

section \<open>Properties of \<open>/attachment\<close>\<close>

lemma isPdf_iff: "isPdf buffer \<longleftrightarrow> take 4 buffer = PDF_MAGIC"
proof (cases buffer)
  case Nil
  then show ?thesis by (simp add: isPdf_def byte_at_def PDF_MAGIC_def)
next
  case (Cons a as)
  note A = this
  show ?thesis
  proof (cases as)
    case Nil
    with A show ?thesis by (simp add: isPdf_def byte_at_def PDF_MAGIC_def)
  next
    case (Cons b bs)
    note B = this
    show ?thesis
    proof (cases bs)
      case Nil
      with A B show ?thesis by (simp add: isPdf_def byte_at_def PDF_MAGIC_def)
    next
      case (Cons c cs)
      note C = this
      show ?thesis
      proof (cases cs)
        case Nil
        with A B C show ?thesis by (simp add: isPdf_def byte_at_def PDF_MAGIC_def)
      next
        case (Cons d ds)
        with A B C show ?thesis by (simp add: isPdf_def byte_at_def PDF_MAGIC_def)
      qed
    qed
  qed
qed

lemma validate_Inr:
  "validate u res = (logs, Inr (buffer, meta)) \<Longrightarrow> buffer \<noteq> [] \<and> isPdf buffer"
  by (auto simp: validate_def split: download_result.splits option.splits sum.splits if_splits)

lemma attempt_try_Inr:
  "attempt_try u c msg_uid part_id k = (fx, Inr body) \<Longrightarrow>
   payload body \<noteq> [] \<and> isPdf (payload body) \<and> ab_size body = length (payload body)"
  by (auto simp: attempt_try_def Let_def
      split: option.splits sum.splits prod.splits dest: validate_Inr)

lemma attachment_loop_ok:
  "attachment_loop u env msg_uid part_id k lastError = (fx, Attachment_ok body) \<Longrightarrow>
   payload body \<noteq> [] \<and> isPdf (payload body) \<and> ab_size body = length (payload body)"
proof (induction u env msg_uid part_id k lastError arbitrary: fx rule: attachment_loop.induct)
  case (1 u env msg_uid part_id attempt lastError)
  from "1.prems" show ?case
    apply (subst (asm) attachment_loop.simps)
    by (auto split: if_splits prod.splits sum.splits dest: attempt_try_Inr "1.IH")
qed


lemma timeline_append [simp]: "timeline (xs @ ys) = timeline xs @ timeline ys"
  by (simp add: timeline_def)

lemma try_parts_timeline: "timeline (fst (try_parts c parts k)) = []"
  by (induction c parts k rule: try_parts.induct)
     (auto simp: timeline_def split: sum.splits prod.splits)

lemma obtain_download_timeline: "timeline (fst (obtain_download c part_id)) = []"
proof -
  have t: "try_parts c parts k = (logs, r) \<Longrightarrow> timeline logs = []" for parts k logs r
    using try_parts_timeline [of c parts k] by simp
  show ?thesis
    by (auto simp: obtain_download_def Let_def timeline_def
        split: sum.splits option.splits prod.splits dest: t [unfolded timeline_def])
qed

lemma validate_timeline: "timeline (fst (validate u res)) = []"
  by (auto simp: validate_def timeline_def split: download_result.splits option.splits sum.splits)

lemma attempt_try_timeline: "timeline (fst (attempt_try u c msg_uid part_id k)) = [Create_client k]"
proof -
  have o: "obtain_download c part_id = (logs, r) \<Longrightarrow> filter timed logs = []" for logs r
    using obtain_download_timeline [of c part_id] by (simp add: timeline_def)
  have v: "validate u res = (logs, r) \<Longrightarrow> filter timed logs = []" for res logs r
    using validate_timeline [of u res] by (simp add: timeline_def)
  show ?thesis
    by (auto simp: attempt_try_def Let_def timeline_def o v
        split: option.splits sum.splits prod.splits)
qed

lemma attempt_catch_timeline:
  "timeline (attempt_catch k msg) = (if k < MAX_RETRIES then [Wait (waitMs k)] else [])"
  by (simp add: attempt_catch_def timeline_def)

text \<open>The three unfoldings of the loop.\<close>

lemma attachment_loop_4:
  "attachment_loop u env msg_uid part_id 4 (Some e) =
     ([Log (Log_all_failed msg_uid part_id e)],
      Attachment_error 500 (message_or e ''Download failed after retries''))"
  by (subst attachment_loop.simps) (simp add: MAX_RETRIES_def)

lemma attachment_loop_step:
  "k \<le> 3 \<Longrightarrow> attachment_loop u env msg_uid part_id k lastError =
     (case attempt_try u (env k) msg_uid part_id k of
        (fx, Inr body) \<Rightarrow> (fx, Attachment_ok body)
      | (fx, Inl msg) \<Rightarrow>
          (fx @ attempt_catch k msg @ fst (attachment_loop u env msg_uid part_id (k + 1) (Some msg)),
           snd (attachment_loop u env msg_uid part_id (k + 1) (Some msg))))"
  by (subst attachment_loop.simps)
     (auto simp: MAX_RETRIES_def split: prod.splits sum.splits)

lemma attachment_loop_from_1:
  fixes u env msg_uid part_id
  defines "A \<equiv> (\<lambda>k. attempt_try u (env k) msg_uid part_id k)"
  shows "attachment_loop u env msg_uid part_id 1 None =
    (case A 1 of
       (fx1, Inr body) \<Rightarrow> (fx1, Attachment_ok body)
     | (fx1, Inl e1) \<Rightarrow>
    (case A 2 of
       (fx2, Inr body) \<Rightarrow> (fx1 @ attempt_catch 1 e1 @ fx2, Attachment_ok body)
     | (fx2, Inl e2) \<Rightarrow>
    (case A 3 of
       (fx3, Inr body) \<Rightarrow>
         (fx1 @ attempt_catch 1 e1 @ fx2 @ attempt_catch 2 e2 @ fx3, Attachment_ok body)
     | (fx3, Inl e3) \<Rightarrow>
         (fx1 @ attempt_catch 1 e1 @ fx2 @ attempt_catch 2 e2 @ fx3 @ attempt_catch 3 e3 @
            [Log (Log_all_failed msg_uid part_id e3)],
          Attachment_error 500 (message_or e3 ''Download failed after retries'')))))"
proof -
  show ?thesis
    unfolding A_def
    by (simp add: attachment_loop_step [of "Suc 0", simplified]
        attachment_loop_step [of 2, simplified] attachment_loop_step [of 3, simplified]
        attachment_loop_4 numeral_2_eq_2 [symmetric] split: prod.splits sum.splits)
qed


lemma attempt_try_invalid:
  assumes "a_connect c = None" and "a_mailboxOpen c = None"
    and "obtain_download c part_id = (logs, Inr (Result (Some (Inr buffer)) meta))"
    and "buffer = [] \<or> \<not> isPdf buffer"
  shows "\<exists>fx. attempt_try u c msg_uid part_id k =
           (fx, Inl (if buffer = [] then ''Downloaded attachment is empty''
                     else not_pdf_message u buffer))"
  using assms by (auto simp: attempt_try_def Let_def validate_def)

lemma pdf_client_response:
  "attachment_handler ascii_decode (\<lambda>k e p. pdf_client) attachment_scenario_request =
     ([Create_client 1, Log (Log_downloading (Num 42) ''1.2'' 1),
       Log (Log_direct_failed ''1.2'' ''Command failed''),
       Log (Log_found_parts
             [\<lparr> pp_path = ''2'', pp_filename = ''inv.pdf'', pp_size = Some 2048,
                 pp_encoding = Some ''base64'' \<rparr>]),
       Log (Log_trying ''2'' ''inv.pdf''), Log (Log_success 8)],
      Attachment_ok \<lparr> payload = pdf_payload, ab_filename = ''document.pdf'', ab_size = 8 \<rparr>)"
  by code_simp

lemma html_client_download:
  "a_connect html_client = None" "a_mailboxOpen html_client = None"
  "obtain_download html_client ''1.2'' = ([], Inr (Result (Some (Inr html_payload)) (Some ''inv.pdf'')))"
  "take 4 html_payload \<noteq> [0x25, 0x50, 0x44, 0x46]" "html_payload \<noteq> []"
  by (simp_all add: html_client_def obtain_download_def html_payload_def)

lemma html_client_response:
  "attachment_handler ascii_decode (\<lambda>k e p. html_client) attachment_scenario_request =
     ([Create_client 1, Log (Log_downloading (Num 42) ''1.2'' 1),
       Log (Log_not_pdf ''<html>404</html>''),
       Log (Log_download_error 1
             ''Downloaded content is not a valid PDF (got 16 bytes, starts with: <html>404</html>)''),
       Log (Log_waiting 1000), Wait 1000, Create_client 2,
       Log (Log_downloading (Num 42) ''1.2'' 2),
       Log (Log_not_pdf ''<html>404</html>''),
       Log (Log_download_error 2
             ''Downloaded content is not a valid PDF (got 16 bytes, starts with: <html>404</html>)''),
       Log (Log_waiting 2000), Wait 2000, Create_client 3,
       Log (Log_downloading (Num 42) ''1.2'' 3),
       Log (Log_not_pdf ''<html>404</html>''),
       Log (Log_download_error 3
             ''Downloaded content is not a valid PDF (got 16 bytes, starts with: <html>404</html>)''),
       Log (Log_all_failed (Num 42) ''1.2''
             ''Downloaded content is not a valid PDF (got 16 bytes, starts with: <html>404</html>)'')],
      Attachment_error 500
        ''Downloaded content is not a valid PDF (got 16 bytes, starts with: <html>404</html>)'')"
  by code_simp

lemma attachment_scenario_request_fields:
  "credentials_present (ar_email attachment_scenario_request) (ar_password attachment_scenario_request)"
  "truthy (messageUid attachment_scenario_request)"
  "str_or (ar_partId attachment_scenario_request) [] \<noteq> []"
  by (simp_all add: attachment_scenario_request_def credentials_present_def)


text \<open>
  C7. \<open>/attachment\<close> answers with a payload only if the payload is not empty and its
  first four bytes are \<open>25 50 44 46\<close>. An attempt whose download went through (directly
  or by the search for another part) and brought an empty payload, or one that starts
  differently, fails with the error of the validation, and nothing is returned.
\<close>

theorem payload_validated:
  "(attachment_handler u env req = (fx, Attachment_ok body) \<longrightarrow>
      payload body \<noteq> [] \<and> take 4 (payload body) = [0x25, 0x50, 0x44, 0x46]) \<and>
   (a_connect c = None \<and> a_mailboxOpen c = None \<and>
    obtain_download c part_id = (logs, Inr (Result (Some (Inr buffer)) meta)) \<and>
    (buffer = [] \<or> take 4 buffer \<noteq> [0x25, 0x50, 0x44, 0x46]) \<longrightarrow>
      (\<exists>fx'. attempt_try u c msg_uid part_id k =
         (fx', Inl (if buffer = [] then ''Downloaded attachment is empty''
                    else not_pdf_message u buffer))))"
proof (intro conjI impI)
  assume "attachment_handler u env req = (fx, Attachment_ok body)"
  then have "attachment_loop u
      (\<lambda>k. env k (str_or (ar_email req) []) (str_or (ar_password req) []))
      (messageUid req) (str_or (ar_partId req) []) 1 None =
      (fx, Attachment_ok body)"
    by (auto simp: attachment_handler_def split: if_splits)
  from attachment_loop_ok [OF this]
  show "payload body \<noteq> []" and "take 4 (payload body) = [0x25, 0x50, 0x44, 0x46]"
    by (simp_all add: isPdf_iff PDF_MAGIC_def)
next
  assume a: "a_connect c = None \<and> a_mailboxOpen c = None \<and>
    obtain_download c part_id = (logs, Inr (Result (Some (Inr buffer)) meta)) \<and>
    (buffer = [] \<or> take 4 buffer \<noteq> [0x25, 0x50, 0x44, 0x46])"
  then have "buffer = [] \<or> \<not> isPdf buffer"
    by (simp add: isPdf_iff PDF_MAGIC_def)
  with a attempt_try_invalid [of c part_id logs buffer meta u msg_uid k]
  show "\<exists>fx'. attempt_try u c msg_uid part_id k =
         (fx', Inl (if buffer = [] then ''Downloaded attachment is empty''
                    else not_pdf_message u buffer))"
    by blast
qed

theorem payload_validated_witness:
  "attachment_handler ascii_decode (\<lambda>k e p. pdf_client) attachment_scenario_request =
     ([Create_client 1, Log (Log_downloading (Num 42) ''1.2'' 1),
       Log (Log_direct_failed ''1.2'' ''Command failed''),
       Log (Log_found_parts
             [\<lparr> pp_path = ''2'', pp_filename = ''inv.pdf'', pp_size = Some 2048,
                 pp_encoding = Some ''base64'' \<rparr>]),
       Log (Log_trying ''2'' ''inv.pdf''), Log (Log_success 8)],
      Attachment_ok \<lparr> payload = pdf_payload, ab_filename = ''document.pdf'', ab_size = 8 \<rparr>) \<and>
   pdf_payload \<noteq> [] \<and> take 4 pdf_payload = [0x25, 0x50, 0x44, 0x46] \<and>
   obtain_download html_client ''1.2'' = ([], Inr (Result (Some (Inr html_payload)) (Some ''inv.pdf''))) \<and>
   take 4 html_payload \<noteq> [0x25, 0x50, 0x44, 0x46] \<and>
   (\<exists>fx'. attempt_try ascii_decode html_client (Num 42) ''1.2'' 1 =
      (fx', Inl (not_pdf_message ascii_decode html_payload)))"
  using payload_validated [where u = ascii_decode and env = "\<lambda>k e p. pdf_client"
      and req = attachment_scenario_request
      and fx = "[Create_client 1, Log (Log_downloading (Num 42) ''1.2'' 1),
       Log (Log_direct_failed ''1.2'' ''Command failed''),
       Log (Log_found_parts
             [\<lparr> pp_path = ''2'', pp_filename = ''inv.pdf'', pp_size = Some 2048,
                 pp_encoding = Some ''base64'' \<rparr>]),
       Log (Log_trying ''2'' ''inv.pdf''), Log (Log_success 8)]"
      and body = "\<lparr> payload = pdf_payload, ab_filename = ''document.pdf'', ab_size = 8 \<rparr>"
      and c = html_client and part_id = "''1.2''" and logs = "[]" and buffer = html_payload
      and meta = "Some ''inv.pdf''" and msg_uid = "Num 42" and k = 1]
    pdf_client_response html_client_download
  by simp

text \<open>
  C8. \<open>/attachment\<close> makes at most three attempts. After the failed attempt 1 it waits
  1000 ms and after the failed attempt 2 it waits 2000 ms, that is
  \<open>1000 * 2 ^ (k - 1)\<close>; there is no wait after attempt 3. An error response has the
  status 500, comes after three attempts, and carries the message of the error of
  attempt 3 (or \<open>Download failed after retries\<close> when that message is empty).
\<close>

theorem retry_schedule:
  assumes "credentials_present (ar_email req) (ar_password req)"
    and "truthy (messageUid req)" and "str_or (ar_partId req) [] \<noteq> []"
  shows
    "(timeline (fst (attachment_handler u env req)) = [Create_client 1] \<or>
      timeline (fst (attachment_handler u env req)) =
        [Create_client 1, Wait 1000, Create_client 2] \<or>
      timeline (fst (attachment_handler u env req)) =
        [Create_client 1, Wait 1000, Create_client 2, Wait 2000, Create_client 3]) \<and>
     (\<forall>code text. snd (attachment_handler u env req) = Attachment_error code text \<longrightarrow>
        code = 500 \<and>
        timeline (fst (attachment_handler u env req)) =
          [Create_client 1, Wait 1000, Create_client 2, Wait 2000, Create_client 3] \<and>
        (\<exists>fx e. attempt_try u (env 3 (str_or (ar_email req) []) (str_or (ar_password req) []))
                  (messageUid req) (str_or (ar_partId req) []) 3 = (fx, Inl e) \<and>
           text = message_or e ''Download failed after retries'')) \<and>
     waitMs 1 = 1000 * 2 ^ (1 - 1) \<and> waitMs 2 = 1000 * 2 ^ (2 - 1)"
proof -
  define clients where
    "clients = (\<lambda>k. env k (str_or (ar_email req) []) (str_or (ar_password req) []))"
  have t: "attempt_try u (clients k) (messageUid req) (str_or (ar_partId req) []) k = (fx, r) \<Longrightarrow>
           timeline fx = [Create_client k]" for k fx r
    using attempt_try_timeline [of u "clients k" "messageUid req" "str_or (ar_partId req) []" k]
    by simp
  have w: "waitMs 1 = 1000" "waitMs 2 = 2000" "waitMs (Suc 0) = 1000"
    by (simp_all add: waitMs_def)
  have H: "attachment_handler u env req =
      attachment_loop u clients (messageUid req) (str_or (ar_partId req) []) 1 None"
    using assms by (simp add: attachment_handler_def clients_def)
  have c3: "env 3 (str_or (ar_email req) []) (str_or (ar_password req) []) = clients 3"
    by (simp add: clients_def)
  show ?thesis
    unfolding H attachment_loop_from_1 c3
    by (auto simp: attempt_catch_timeline MAX_RETRIES_def w t timeline_def [of "[_]"]
        split: prod.splits sum.splits)
qed

theorem retry_schedule_witness:
  "credentials_present (ar_email attachment_scenario_request) (ar_password attachment_scenario_request) \<and>
   truthy (messageUid attachment_scenario_request) \<and>
   snd (attachment_handler ascii_decode (\<lambda>k e p. html_client) attachment_scenario_request) =
     Attachment_error 500
       ''Downloaded content is not a valid PDF (got 16 bytes, starts with: <html>404</html>)'' \<and>
   timeline (fst (attachment_handler ascii_decode (\<lambda>k e p. html_client) attachment_scenario_request)) =
     [Create_client 1, Wait 1000, Create_client 2, Wait 2000, Create_client 3]"
  using retry_schedule [OF attachment_scenario_request_fields, of ascii_decode "\<lambda>k e p. html_client"]
    attachment_scenario_request_fields
  by (simp add: html_client_response)







end
